theory Spec2Isabelle
  imports Main
begin

section \<open>JSON values and JavaScript expression semantics\<close>

text \<open>
  The documents handled by the services are the results of \<^verbatim>\<open>JSON.parse\<close>: null, booleans,
  numbers, strings, arrays and objects. Numbers are modelled as integers (the documents carry
  episode numbers, counters and millisecond timestamps); strings are ASCII. An object is an
  association list with distinct keys. The value \<^verbatim>\<open>undefined\<close>, which only arises from
  reading an absent property, is \<open>None\<close> of \<open>json option\<close>.
\<close>

datatype json =
    JNull
  | JBool bool
  | JNum int
  | JStr string
  | JArr "json list"
  | JObj "(string \<times> json) list"

datatype error =
    TypeError
  | RangeError
  | TransportError string
  | HttpStatusError nat string
  | JsonSyntaxError
  | ValidationError string

fun truthy :: "json \<Rightarrow> bool" where
  "truthy JNull = False"
| "truthy (JBool b) = b"
| "truthy (JNum n) = (n \<noteq> 0)"
| "truthy (JStr s) = (s \<noteq> [])"
| "truthy (JArr xs) = True"
| "truthy (JObj kvs) = True"

fun truthy_v :: "json option \<Rightarrow> bool" where
  "truthy_v None = False"
| "truthy_v (Some v) = truthy v"

text \<open>\<^verbatim>\<open>a || b\<close>: the left operand when it is truthy, the right operand otherwise.\<close>

definition or_else :: "json option \<Rightarrow> json option \<Rightarrow> json option" where
  "or_else a b = (if truthy_v a then a else b)"

text \<open>\<^verbatim>\<open>a || c\<close> with a right operand that is never undefined.\<close>

definition or_default :: "json option \<Rightarrow> json \<Rightarrow> json" where
  "or_default a c = (case a of Some v \<Rightarrow> if truthy v then v else c | None \<Rightarrow> c)"

text \<open>
  Reading one of the properties the services read (date, messages, timestamp, ...) from a value
  that is neither null nor undefined: an object yields its own property, and a primitive or an
  array has no property of these names. Reading a property of null raises a TypeError, which
  the callers model where it can happen.
\<close>

fun get_prop :: "json \<Rightarrow> string \<Rightarrow> json option" where
  "get_prop (JObj kvs) k = map_of kvs k"
| "get_prop v k = None"

fun set_prop :: "(string \<times> json) list \<Rightarrow> string \<Rightarrow> json \<Rightarrow> (string \<times> json) list" where
  "set_prop [] k v = [(k, v)]"
| "set_prop ((k', v') # kvs) k v = (if k' = k then (k, v) # kvs else (k', v') # set_prop kvs k v)"

subsection \<open>Decimal numerals\<close>

definition digit_char :: "nat \<Rightarrow> char" where
  "digit_char d = char_of (48 + d)"

fun show_nat :: "nat \<Rightarrow> string" where
  "show_nat n = (if n < 10 then [digit_char n] else show_nat (n div 10) @ [digit_char (n mod 10)])"

declare show_nat.simps [simp del]

definition show_int :: "int \<Rightarrow> string" where
  "show_int i = (if i < 0 then CHR ''-'' # show_nat (nat (- i)) else show_nat (nat i))"

definition pad_left :: "nat \<Rightarrow> string \<Rightarrow> string" where
  "pad_left w s = replicate (w - length s) CHR ''0'' @ s"

text \<open>
  Object spread \<^verbatim>\<open>{...v}\<close> copies the own enumerable properties: those of an object, the
  indexed elements of an array, the indexed characters of a string, and nothing for a number,
  a boolean or null.
\<close>

fun indexed :: "nat \<Rightarrow> json list \<Rightarrow> (string \<times> json) list" where
  "indexed i [] = []"
| "indexed i (x # xs) = (show_nat i, x) # indexed (Suc i) xs"

fun spread :: "json \<Rightarrow> (string \<times> json) list" where
  "spread (JObj kvs) = kvs"
| "spread (JArr xs) = indexed 0 xs"
| "spread (JStr s) = indexed 0 (map (\<lambda>c. JStr [c]) s)"
| "spread v = []"

text \<open>Conversion to a string, as a template literal does it.\<close>

fun intercalate :: "string \<Rightarrow> string list \<Rightarrow> string" where
  "intercalate sep [] = []"
| "intercalate sep [x] = x"
| "intercalate sep (x # y # ys) = x @ sep @ intercalate sep (y # ys)"

fun toStringJS :: "json \<Rightarrow> string" where
  "toStringJS JNull = ''null''"
| "toStringJS (JBool b) = (if b then ''true'' else ''false'')"
| "toStringJS (JNum n) = show_int n"
| "toStringJS (JStr s) = s"
| "toStringJS (JArr xs) =
     intercalate '','' (map (\<lambda>x. if x = JNull then [] else toStringJS x) xs)"
| "toStringJS (JObj kvs) = ''[object Object]''"

section \<open>The Date object\<close>

text \<open>
  A valid Date is its time value: milliseconds since 1970-01-01T00:00:00Z, as an integer of
  magnitude at most 8.64e15. The calendar arithmetic is the proleptic Gregorian calendar of
  the language standard, computed on days since the epoch.
\<close>

definition is_digit :: "char \<Rightarrow> bool" where
  "is_digit c = (48 \<le> (of_char c :: nat) \<and> (of_char c :: nat) \<le> 57)"

definition digit_val :: "char \<Rightarrow> nat" where
  "digit_val c = of_char c - 48"

definition digits_val :: "string \<Rightarrow> nat" where
  "digits_val s = foldl (\<lambda>a c. 10 * a + digit_val c) 0 s"

definition is_leap :: "int \<Rightarrow> bool" where
  "is_leap y = (y mod 4 = 0 \<and> (y mod 100 \<noteq> 0 \<or> y mod 400 = 0))"

definition days_in_month :: "int \<Rightarrow> int \<Rightarrow> int" where
  "days_in_month y m =
     (if m = 2 then (if is_leap y then 29 else 28)
      else if m = 4 \<or> m = 6 \<or> m = 9 \<or> m = 11 then 30 else 31)"

definition days_from_civil :: "int \<Rightarrow> int \<Rightarrow> int \<Rightarrow> int" where
  "days_from_civil y m d =
     (let y' = (if m \<le> 2 then y - 1 else y);
          era = y' div 400;
          yoe = y' - era * 400;
          doy = (153 * (if m > 2 then m - 3 else m + 9) + 2) div 5 + d - 1;
          doe = yoe * 365 + yoe div 4 - yoe div 100 + doy
      in era * 146097 + doe - 719468)"

definition civil_from_days :: "int \<Rightarrow> int \<times> int \<times> int" where
  "civil_from_days z0 =
     (let z = z0 + 719468;
          era = z div 146097;
          doe = z - era * 146097;
          yoe = (doe - doe div 1460 + doe div 36524 - doe div 146096) div 365;
          y = yoe + era * 400;
          doy = doe - (365 * yoe + yoe div 4 - yoe div 100);
          mp = (5 * doy + 2) div 153;
          d = doy - (153 * mp + 2) div 5 + 1;
          m = (if mp < 10 then mp + 3 else mp - 9)
      in (if m \<le> 2 then y + 1 else y, m, d))"

definition utc_ms :: "int \<Rightarrow> int \<Rightarrow> int \<Rightarrow> int \<Rightarrow> int \<Rightarrow> int \<Rightarrow> int" where
  "utc_ms y m d hh mi ss =
     days_from_civil y m d * 86400000 + hh * 3600000 + mi * 60000 + ss * 1000"

text \<open>
  The date-time string format of the language standard: a date
  \<^verbatim>\<open>YYYY\<close>, \<^verbatim>\<open>YYYY-MM\<close> or \<^verbatim>\<open>YYYY-MM-DD\<close>
  (the year also as a sign and six digits), alone or followed by
  \<^verbatim>\<open>THH:mm:ssZ\<close>, with every field in its legal range. \<open>iso_date_time\<close> gives the
  time value the standard prescribes for a string of this format, and \<open>None\<close> for every
  other string. It is not the parser of an engine: what an engine makes of a string outside
  the format (or with a day beyond the end of the month) is its own business, see the record
  \<open>runtime\<close> below.
\<close>

definition parse_year :: "string \<Rightarrow> (int \<times> string) option" where
  "parse_year s =
     (if s \<noteq> [] \<and> (hd s = CHR ''+'' \<or> hd s = CHR ''-'') then
        (let ds = take 6 (tl s) in
         if length ds = 6 \<and> list_all is_digit ds \<and> \<not> (hd s = CHR ''-'' \<and> digits_val ds = 0)
         then Some ((if hd s = CHR ''-'' then - int (digits_val ds) else int (digits_val ds)),
                    drop 7 s)
         else None)
      else
        (let ds = take 4 s in
         if length ds = 4 \<and> list_all is_digit ds then Some (int (digits_val ds), drop 4 s)
         else None))"

definition parse_2 :: "string \<Rightarrow> (int \<times> string) option" where
  "parse_2 s =
     (let ds = take 2 s in
      if length ds = 2 \<and> list_all is_digit ds then Some (int (digits_val ds), drop 2 s)
      else None)"

definition iso_date :: "string \<Rightarrow> (int \<times> int \<times> int) option" where
  "iso_date s =
     (case parse_year s of
        None \<Rightarrow> None
      | Some (y, r1) \<Rightarrow>
          if r1 = [] then Some (y, 1, 1)
          else if hd r1 \<noteq> CHR ''-'' then None
          else (case parse_2 (tl r1) of
                  None \<Rightarrow> None
                | Some (m, r2) \<Rightarrow>
                    if m < 1 \<or> 12 < m then None
                    else if r2 = [] then Some (y, m, 1)
                    else if hd r2 \<noteq> CHR ''-'' then None
                    else (case parse_2 (tl r2) of
                            None \<Rightarrow> None
                          | Some (d, r3) \<Rightarrow>
                              if r3 = [] \<and> 1 \<le> d \<and> d \<le> days_in_month y m
                              then Some (y, m, d) else None)))"

definition iso_time :: "string \<Rightarrow> (int \<times> int \<times> int) option" where
  "iso_time s =
     (case parse_2 s of
        None \<Rightarrow> None
      | Some (hh, r1) \<Rightarrow>
          if r1 = [] \<or> hd r1 \<noteq> CHR '':'' then None
          else (case parse_2 (tl r1) of
                  None \<Rightarrow> None
                | Some (mi, r2) \<Rightarrow>
                    if r2 = [] \<or> hd r2 \<noteq> CHR '':'' then None
                    else (case parse_2 (tl r2) of
                            None \<Rightarrow> None
                          | Some (ss, r3) \<Rightarrow>
                              if r3 = ''Z'' \<and> mi \<le> 59 \<and> ss \<le> 59
                                 \<and> (hh \<le> 23 \<or> (hh = 24 \<and> mi = 0 \<and> ss = 0))
                              then Some (hh, mi, ss) else None)))"

definition time_clip :: "int \<Rightarrow> int option" where
  "time_clip t = (if \<bar>t\<bar> \<le> 8640000000000000 then Some t else None)"

definition iso_date_time :: "string \<Rightarrow> int option" where
  "iso_date_time s =
     (let d = takeWhile (\<lambda>c. c \<noteq> CHR ''T'') s;
          t = dropWhile (\<lambda>c. c \<noteq> CHR ''T'') s
      in case iso_date d of
           None \<Rightarrow> None
         | Some (y, m, dd) \<Rightarrow>
             if t = [] then time_clip (utc_ms y m dd 0 0 0)
             else (case iso_time (tl t) of
                     None \<Rightarrow> None
                   | Some (hh, mi, ss) \<Rightarrow> time_clip (utc_ms y m dd hh mi ss)))"

text \<open>
  \<^verbatim>\<open>toISOString\<close> prints \<^verbatim>\<open>YYYY-MM-DDTHH:mm:ss.sssZ\<close>, the year with a sign and six
  digits when it is outside 0..9999.
\<close>

definition show_year :: "int \<Rightarrow> string" where
  "show_year y =
     (if 0 \<le> y \<and> y \<le> 9999 then pad_left 4 (show_nat (nat y))
      else (if y < 0 then CHR ''-'' else CHR ''+'') # pad_left 6 (show_nat (nat \<bar>y\<bar>)))"

definition show2 :: "int \<Rightarrow> string" where
  "show2 n = pad_left 2 (show_nat (nat n))"

definition toISOString :: "int \<Rightarrow> string" where
  "toISOString t =
     (let (y, m, d) = civil_from_days (t div 86400000);
          r = t mod 86400000
      in show_year y @ ''-'' @ show2 m @ ''-'' @ show2 d @ ''T''
         @ show2 (r div 3600000) @ '':'' @ show2 (r mod 3600000 div 60000) @ '':''
         @ show2 (r mod 60000 div 1000) @ ''.'' @ pad_left 3 (show_nat (nat (r mod 1000))) @ ''Z'')"

text \<open>
  What the program takes from its surroundings when it handles dates. \<open>date_parse\<close> is
  the engine's parser behind \<^verbatim>\<open>new Date(string)\<close>: the time value, or \<open>None\<close> for an
  Invalid Date. The two offsets are those of the host's time zone, in milliseconds:
  \<open>utc_offset t\<close> is the offset in force at the time value \<open>t\<close>, and \<open>local_offset l\<close>
  the offset by which the local time \<open>l\<close> is turned back into a time value (the standard
  says which one that is when \<open>l\<close> is skipped or repeated at a change of the clocks).
\<close>

record runtime =
  date_parse :: "string \<Rightarrow> int option"
  utc_offset :: "int \<Rightarrow> int"
  local_offset :: "int \<Rightarrow> int"

text \<open>An engine parses the strings of the standard format as the standard prescribes.\<close>

definition parses_standard_format :: "runtime \<Rightarrow> bool" where
  "parses_standard_format rt = (\<forall>s t. iso_date_time s = Some t \<longrightarrow> date_parse rt s = Some t)"

text \<open>
  \<^verbatim>\<open>getMinutes\<close> reads the minute field of the local time. \<^verbatim>\<open>setMinutes(m)\<close> replaces
  the minute field of the local time by \<open>m\<close>, carrying into the hours and days when \<open>m\<close> is
  outside 0..59, and turns the resulting local time back into a time value.
\<close>

definition getMinutes :: "runtime \<Rightarrow> int \<Rightarrow> int" where
  "getMinutes rt t = ((t + utc_offset rt t) div 60000) mod 60"

definition setMinutes :: "runtime \<Rightarrow> int \<Rightarrow> int \<Rightarrow> int option" where
  "setMinutes rt t m =
     (let local = t + utc_offset rt t;
          local' = local - getMinutes rt t * 60000 + m * 60000
      in time_clip (local' - local_offset rt local'))"

text \<open>
  Two runtimes for concrete runs, both with an engine that parses the standard format only.
  The first keeps UTC as its local time. The second has the offset \<open>off\<close> until the time
  value \<open>change\<close> and then puts its clocks forward by \<open>shift\<close>: the local times from
  \<open>change + off\<close> to \<open>change + off + shift\<close> are skipped and, as the standard says,
  read with the offset before the change.
\<close>

definition utc_runtime :: runtime where
  "utc_runtime = \<lparr>date_parse = iso_date_time, utc_offset = (\<lambda>t. 0), local_offset = (\<lambda>l. 0)\<rparr>"


section \<open>EpisodeService: normalization\<close>

text \<open>
  \<^verbatim>\<open>syntheticTimestamp(dateString, index)\<close>. The argument is the episode's
  \<^verbatim>\<open>date || null\<close>, so it is null or truthy. \<open>now\<close> is the reading of
  \<^verbatim>\<open>Date.now()\<close> taken by this call, which is always a valid time value. The result is
  null for an Invalid Date; \<^verbatim>\<open>toISOString\<close> raises a RangeError when the shifted time
  leaves the range of Date.
\<close>

definition syntheticTimestamp :: "runtime \<Rightarrow> int \<Rightarrow> json \<Rightarrow> nat \<Rightarrow> error + json" where
  "syntheticTimestamp rt now dateString index =
     (let baseDate = (if truthy dateString
                      then date_parse rt (toStringJS dateString @ ''T03:14:00Z'')
                      else Some now)
      in case baseDate of
           None \<Rightarrow> Inr JNull
         | Some b \<Rightarrow>
             (case setMinutes rt b (getMinutes rt b + int index * 3) of
                None \<Rightarrow> Inl RangeError
              | Some t \<Rightarrow> Inr (JStr (toISOString t))))"

text \<open>
  The callback of \<^verbatim>\<open>messages.map\<close>. Reading \<^verbatim>\<open>msg.timestamp\<close> of a null message raises a
  TypeError. \<^verbatim>\<open>syntheticTimestamp\<close> is only evaluated when the message's own timestamp is
  not truthy.
\<close>

definition normalizeMessage :: "runtime \<Rightarrow> int \<Rightarrow> json \<Rightarrow> json \<Rightarrow> nat \<Rightarrow> error + json" where
  "normalizeMessage rt now date msg i =
     (if msg = JNull then Inl TypeError
      else if truthy_v (get_prop msg ''timestamp'')
      then Inr (JObj (set_prop (spread msg) ''timestamp'' (the (get_prop msg ''timestamp''))))
      else (case syntheticTimestamp rt now date i of
              Inl e \<Rightarrow> Inl e
            | Inr ts \<Rightarrow> Inr (JObj (set_prop (spread msg) ''timestamp'' ts))))"

text \<open>
  \<^verbatim>\<open>messages.map((msg, i) => ...)\<close>: the messages are visited in order, \<open>i\<close> is the index of
  the next one and \<open>now k\<close> the clock reading while message \<open>k\<close> is handled; the first exception
  ends the loop.
\<close>

fun normalizeMessages ::
  "runtime \<Rightarrow> (nat \<Rightarrow> int) \<Rightarrow> json \<Rightarrow> json list \<Rightarrow> nat \<Rightarrow> error + json list" where
  "normalizeMessages rt now date [] i = Inr []"
| "normalizeMessages rt now date (msg # msgs) i =
     (case normalizeMessage rt (now i) date msg i of
        Inl e \<Rightarrow> Inl e
      | Inr m \<Rightarrow>
          (case normalizeMessages rt now date msgs (Suc i) of
             Inl e \<Rightarrow> Inl e
           | Inr ms \<Rightarrow> Inr (m # ms)))"

definition normalizeEpisode :: "runtime \<Rightarrow> (nat \<Rightarrow> int) \<Rightarrow> json \<Rightarrow> nat \<Rightarrow> error + json" where
  "normalizeEpisode rt now episode index =
     (if \<not> truthy episode then Inr JNull
      else
        let date = or_default (get_prop episode ''date'') JNull;
            messages = (case get_prop episode ''messages'' of
                          Some (JArr ms) \<Rightarrow> ms
                        | _ \<Rightarrow> [])
        in case normalizeMessages rt now date messages 0 of
             Inl e \<Rightarrow> Inl e
           | Inr normalizedMessages \<Rightarrow>
               Inr (JObj
                 (set_prop (set_prop (set_prop (set_prop (set_prop (set_prop (set_prop
                    (spread episode)
                    ''date'' date)
                    ''episode'' (or_default (get_prop episode ''episode'') (JNum (int index + 1))))
                    ''messages'' (JArr normalizedMessages))
                    ''terminal_blocks'' (or_default (get_prop episode ''terminal_blocks'') (JArr [])))
                    ''score_delta''
                      (or_default (or_else (get_prop episode ''score_delta'')
                                           (get_prop episode ''scoreDelta'')) (JObj [])))
                    ''metrics_update''
                      (or_default (or_else (get_prop episode ''metrics_update'')
                                           (get_prop episode ''metricsUpdate'')) (JObj [])))
                    ''state_snapshot''
                      (or_default (or_else (get_prop episode ''state_snapshot'')
                                           (get_prop episode ''stateSnapshot'')) JNull))))"

text \<open>
  \<^verbatim>\<open>rawEpisodes.map((ep, idx) => this.normalizeEpisode(ep, idx))\<close>: \<open>idx\<close> is the index of
  the next item, \<open>now idx k\<close> the clock reading while message \<open>k\<close> of item \<open>idx\<close> is handled.
\<close>

fun mapEpisodes ::
  "runtime \<Rightarrow> (nat \<Rightarrow> nat \<Rightarrow> int) \<Rightarrow> json list \<Rightarrow> nat \<Rightarrow> error + json list" where
  "mapEpisodes rt now [] idx = Inr []"
| "mapEpisodes rt now (ep # eps) idx =
     (case normalizeEpisode rt (now idx) ep idx of
        Inl e \<Rightarrow> Inl e
      | Inr r \<Rightarrow>
          (case mapEpisodes rt now eps (Suc idx) of
             Inl e \<Rightarrow> Inl e
           | Inr rs \<Rightarrow> Inr (r # rs)))"

text \<open>A clock that shows the same time at every reading, for concrete runs.\<close>

definition const_clock :: "int \<Rightarrow> nat \<Rightarrow> nat \<Rightarrow> int" where
  "const_clock t idx k = t"

definition normalizeEpisodes :: "runtime \<Rightarrow> (nat \<Rightarrow> nat \<Rightarrow> int) \<Rightarrow> json \<Rightarrow> error + json list" where
  "normalizeEpisodes rt now rawEpisodes =
     (case rawEpisodes of
        JArr eps \<Rightarrow>
          (case mapEpisodes rt now eps 0 of
             Inl e \<Rightarrow> Inl e
           | Inr rs \<Rightarrow> Inr (filter truthy rs))
      | _ \<Rightarrow> Inr [])"


section \<open>EpisodeService.sortEpisodes on a store of arrays\<close>

text \<open>
  JavaScript arrays are mutable objects reached through references. The store is the list of
  all arrays allocated so far; a reference is an index into it. The spread copy
  \<^verbatim>\<open>[...episodes]\<close> allocates a fresh array at the end of the store, and
  \<^verbatim>\<open>sorted.reverse()\<close> reverses that fresh array in place and returns its reference.
  The parameter default \<^verbatim>\<open>order = 'newest'\<close> applies when the argument is undefined (None).
\<close>

type_synonym 'a store = "'a list list"

definition spread_copy :: "'a store \<Rightarrow> nat \<Rightarrow> nat \<times> 'a store" where
  "spread_copy h a = (length h, h @ [h ! a])"

definition reverse_in_place :: "'a store \<Rightarrow> nat \<Rightarrow> nat \<times> 'a store" where
  "reverse_in_place h a = (a, h[a := rev (h ! a)])"

definition sortEpisodes :: "'a store \<Rightarrow> nat \<Rightarrow> string option \<Rightarrow> nat \<times> 'a store" where
  "sortEpisodes h episodes order_arg =
     (let order = (case order_arg of None \<Rightarrow> ''newest'' | Some v \<Rightarrow> v);
          (sorted, h1) = spread_copy h episodes
      in if order = ''newest'' then reverse_in_place h1 sorted else (sorted, h1))"

section \<open>DataService\<close>

text \<open>
  A cache entry is \<^verbatim>\<open>{ data, timestamp }\<close>. The browser's localStorage maps keys to strings;
  a stored string is modelled by what \<^verbatim>\<open>getFromLocalStorage\<close> can read from it:
  \<open>Unreadable\<close> when the string is empty, \<^verbatim>\<open>JSON.parse\<close> throws or the parsed value is null
  (reading its version raises, which the function catches), and otherwise the parsed value's
  \<^verbatim>\<open>version\<close>, \<^verbatim>\<open>data\<close> and \<^verbatim>\<open>timestamp\<close> properties, absent ones as \<open>None\<close>; the
  timestamp is a number when it is present.
\<close>

record cache_entry =
  data :: "json option"
  timestamp :: int

datatype ls_item =
    Unreadable
  | Item "json option" "json option" "int option"

record response =
  status :: nat
  statusText :: string
  body :: "json option"

text \<open>\<^verbatim>\<open>response.ok\<close> is true for a status in the range 200..299.\<close>

definition response_ok :: "response \<Rightarrow> bool" where
  "response_ok r = (200 \<le> status r \<and> status r \<le> 299)"

text \<open>
  The options of \<^verbatim>\<open>fetch\<close>, after the defaults are filled in. A validator or transform of
  null is \<open>None\<close>. A transform may throw. The option \<^verbatim>\<open>fetchOptions\<close> is handed on to
  \<^verbatim>\<open>window.fetch\<close> unread and is left out.
\<close>

record options =
  opt_cache :: bool
  cacheDuration :: int
  validator :: "(json \<Rightarrow> bool) option"
  transform :: "(json \<Rightarrow> error + json) option"
  retries :: int

definition default_options :: options where
  "default_options =
     \<lparr>opt_cache = True, cacheDuration = 3600000, validator = None, transform = None, retries = 3\<rparr>"

text \<open>
  A pending promise created by \<^verbatim>\<open>fetch\<close>. \<open>req_attempt\<close> is the loop variable \<open>i\<close> of
  \<^verbatim>\<open>fetchWithRetry\<close> whose \<^verbatim>\<open>window.fetch\<close> call is outstanding, or \<open>None\<close> when the loop
  body never ran (\<open>retries \<le> 0\<close>) and the function returned undefined.
\<close>

record request =
  req_key :: string
  req_url :: string
  req_options :: options
  req_attempt :: "nat option"

text \<open>What a call of the async function \<^verbatim>\<open>fetch\<close> hands back: a promise already resolved
  with cached data, or the pending promise with the given identity.\<close>

datatype fetch_result = Resolved "json option" | Pending nat

text \<open>
  The service with its surroundings: the two maps and the version of the object, the
  browser's localStorage, the promises created by \<^verbatim>\<open>fetch\<close> that are still pending and the
  outcome of each settled one, the identity of the next promise, and a log of the URLs passed
  to \<^verbatim>\<open>window.fetch\<close> and of the delays slept between retries.
\<close>

record ds_state =
  cache :: "string \<rightharpoonup> cache_entry"
  loading :: "string \<rightharpoonup> nat"
  cacheVersion :: string
  localStorage :: "string \<rightharpoonup> ls_item"
  pending :: "nat \<rightharpoonup> request"
  settled :: "nat \<rightharpoonup> error + json"
  next_promise :: nat
  attempt_log :: "string list"
  delay_log :: "int list"

definition ls_key :: "string \<Rightarrow> string" where
  "ls_key key = ''uplink_cache_'' @ key"

subsection \<open>addVersion\<close>

definition hex_digit :: "nat \<Rightarrow> char" where
  "hex_digit d = (if d < 10 then char_of (48 + d) else char_of (55 + d))"

definition uri_unreserved :: "char \<Rightarrow> bool" where
  "uri_unreserved c =
     (let n = (of_char c :: nat) in
      (65 \<le> n \<and> n \<le> 90) \<or> (97 \<le> n \<and> n \<le> 122) \<or> (48 \<le> n \<and> n \<le> 57)
      \<or> n \<in> {45, 95, 46, 33, 126, 42, 39, 40, 41})"

definition encodeURIComponent :: "string \<Rightarrow> string" where
  "encodeURIComponent s =
     concat (map (\<lambda>c. if uri_unreserved c then [c]
                       else [CHR ''%'', hex_digit (of_char c div 16), hex_digit (of_char c mod 16)]) s)"

fun has_version_param :: "string \<Rightarrow> bool" where
  "has_version_param (a # b # c # rest) =
     (((a = CHR ''?'' \<or> a = CHR ''&'') \<and> b = CHR ''v'' \<and> c = CHR ''='')
      \<or> has_version_param (b # c # rest))"
| "has_version_param s = False"

definition addVersion :: "ds_state \<Rightarrow> string \<Rightarrow> string" where
  "addVersion s url =
     (if cacheVersion s = [] then url
      else if has_version_param url then url
      else url @ (if CHR ''?'' \<in> set url then ''&'' else ''?'') @ ''v=''
               @ encodeURIComponent (cacheVersion s))"

subsection \<open>The persistent tier\<close>

text \<open>\<open>quota_ok\<close> says whether \<^verbatim>\<open>localStorage.setItem\<close> succeeds; when it throws, the
  exception is caught and nothing is written.\<close>

definition saveToLocalStorage :: "ds_state \<Rightarrow> bool \<Rightarrow> string \<Rightarrow> cache_entry \<Rightarrow> ds_state" where
  "saveToLocalStorage s quota_ok key entry =
     (if quota_ok
      then s\<lparr>localStorage := (localStorage s)(ls_key key \<mapsto>
                Item (Some (JStr (cacheVersion s))) (data entry) (Some (timestamp entry)))\<rparr>
      else s)"

definition getFromLocalStorage ::
  "ds_state \<Rightarrow> string \<Rightarrow> (json option \<times> int option) option \<times> ds_state" where
  "getFromLocalStorage s key =
     (case localStorage s (ls_key key) of
        None \<Rightarrow> (None, s)
      | Some Unreadable \<Rightarrow> (None, s)
      | Some (Item v d t) \<Rightarrow>
          if v \<noteq> Some (JStr (cacheVersion s))
          then (None, s\<lparr>localStorage := (localStorage s)(ls_key key := None)\<rparr>)
          else (Some (d, t), s))"

subsection \<open>invalidate\<close>

definition starts_with :: "string \<Rightarrow> string \<Rightarrow> bool" where
  "starts_with p k = (take (length p) k = p)"

definition invalidate :: "ds_state \<Rightarrow> string option \<Rightarrow> ds_state" where
  "invalidate s url =
     (case url of
        Some u \<Rightarrow>
          if u \<noteq> [] then
            s\<lparr>cache := (cache s)(u := None),
              localStorage := (localStorage s)(ls_key u := None)\<rparr>
          else
            s\<lparr>cache := Map.empty,
              localStorage := (\<lambda>k. if starts_with ''uplink_cache_'' k then None else localStorage s k)\<rparr>
      | None \<Rightarrow>
          s\<lparr>cache := Map.empty,
            localStorage := (\<lambda>k. if starts_with ''uplink_cache_'' k then None else localStorage s k)\<rparr>)"

subsection \<open>fetch\<close>

text \<open>
  The body of \<^verbatim>\<open>fetch\<close> has no await, so one call runs to its return without interleaving;
  \<open>now\<close> is the reading of \<^verbatim>\<open>Date.now()\<close> during the call. Starting a request calls
  \<^verbatim>\<open>fetchWithRetry\<close>, which runs synchronously up to its first await: for \<open>retries > 0\<close> the
  first \<^verbatim>\<open>window.fetch\<close> is issued (and logged) at once.
\<close>

definition start_request :: "ds_state \<Rightarrow> string \<Rightarrow> options \<Rightarrow> fetch_result \<times> ds_state" where
  "start_request s url opts =
     (let fetchUrl = addVersion s url;
          p = next_promise s;
          first = (0 < retries opts)
      in (Pending p,
          s\<lparr>pending := (pending s)(p \<mapsto>
                \<lparr>req_key = url, req_url = fetchUrl, req_options = opts,
                 req_attempt = (if first then Some 0 else None)\<rparr>),
            next_promise := Suc p,
            attempt_log := attempt_log s @ (if first then [fetchUrl] else []),
            loading := (loading s)(url \<mapsto> p)\<rparr>))"

text \<open>
  The two freshness tests: \<^verbatim>\<open>this.cache.has(cacheKey)\<close> with
  \<^verbatim>\<open>Date.now() - cached.timestamp < cacheDuration\<close>, and
  \<^verbatim>\<open>localCached && Date.now() - localCached.timestamp < cacheDuration\<close>, which is false for
  an absent timestamp.
\<close>

definition fresh_cached :: "cache_entry option \<Rightarrow> int \<Rightarrow> int \<Rightarrow> bool" where
  "fresh_cached cached now duration =
     (case cached of Some c \<Rightarrow> now - timestamp c < duration | None \<Rightarrow> False)"

definition fresh_local :: "(json option \<times> int option) option \<Rightarrow> int \<Rightarrow> int \<Rightarrow> bool" where
  "fresh_local localCached now duration =
     (case localCached of
        Some (d, Some t) \<Rightarrow> now - t < duration
      | _ \<Rightarrow> False)"

definition fetch :: "ds_state \<Rightarrow> string \<Rightarrow> options \<Rightarrow> int \<Rightarrow> fetch_result \<times> ds_state" where
  "fetch s url opts now =
     (if opt_cache opts \<and> fresh_cached (cache s url) now (cacheDuration opts)
      then (Resolved (data (the (cache s url))), s)
      else
        let (localCached, s1) = (if opt_cache opts then getFromLocalStorage s url else (None, s))
        in if fresh_local localCached now (cacheDuration opts)
           then (Resolved (fst (the localCached)),
                 s1\<lparr>cache := (cache s1)(url \<mapsto>
                       \<lparr>data = fst (the localCached), timestamp = the (snd (the localCached))\<rparr>)\<rparr>)
           else (case loading s1 url of
                   Some p \<Rightarrow> (Pending p, s1)
                 | None \<Rightarrow> start_request s1 url opts))"

subsection \<open>Settlement: fetchWithRetry and the promise chain\<close>

text \<open>
  The two \<^verbatim>\<open>then\<close> callbacks of \<^verbatim>\<open>fetch\<close>, applied to what \<^verbatim>\<open>fetchWithRetry\<close> returned
  (\<open>None\<close> for undefined): the status check, \<^verbatim>\<open>response.json()\<close>, the validator and the
  transform.
\<close>

definition fetch_chain :: "string \<Rightarrow> options \<Rightarrow> response option \<Rightarrow> error + json" where
  "fetch_chain url opts resp =
     (case resp of
        None \<Rightarrow> Inl TypeError
      | Some r \<Rightarrow>
          if \<not> response_ok r then Inl (HttpStatusError (status r) (statusText r))
          else (case body r of
                  None \<Rightarrow> Inl JsonSyntaxError
                | Some d \<Rightarrow>
                    if (case validator opts of Some v \<Rightarrow> \<not> v d | None \<Rightarrow> False)
                    then Inl (ValidationError url)
                    else (case transform opts of
                            Some f \<Rightarrow> f d
                          | None \<Rightarrow> Inr d)))"

text \<open>
  The promise \<open>p\<close> settles with \<open>outcome\<close>: on success the result is cached in both tiers
  (when caching is on) with the current time; in either case the in-flight marker of the key
  is deleted.
\<close>

definition settle ::
  "ds_state \<Rightarrow> nat \<Rightarrow> request \<Rightarrow> error + json \<Rightarrow> int \<Rightarrow> bool \<Rightarrow> ds_state" where
  "settle s p req outcome now quota_ok =
     (let key = req_key req;
          s1 = (case outcome of
                  Inr finalData \<Rightarrow>
                    if opt_cache (req_options req) then
                      (let cacheEntry = \<lparr>data = Some finalData, timestamp = now\<rparr>
                       in saveToLocalStorage (s\<lparr>cache := (cache s)(key \<mapsto> cacheEntry)\<rparr>)
                            quota_ok key cacheEntry)
                    else s
                | Inl e \<Rightarrow> s)
      in s1\<lparr>loading := (loading s1)(key := None),
            pending := (pending s1)(p := None),
            settled := (settled s1)(p \<mapsto> outcome)\<rparr>)"

text \<open>
  One resumption of a pending request. For a request whose \<^verbatim>\<open>window.fetch\<close> number \<open>i\<close> is
  outstanding, \<open>outcome\<close> is how that call ends: \<open>Inr\<close> a response, which
  \<^verbatim>\<open>fetchWithRetry\<close> returns to the chain, or \<open>Inl\<close> a transport failure, which is rethrown
  when \<open>i = retries - 1\<close> and otherwise followed by a delay of \<open>2^i * 1000\<close> ms and the next
  \<^verbatim>\<open>window.fetch\<close>. For a request without an outstanding call the chain runs on undefined and
  \<open>outcome\<close> is not looked at.
\<close>

definition deliver ::
  "ds_state \<Rightarrow> nat \<Rightarrow> error + response \<Rightarrow> int \<Rightarrow> bool \<Rightarrow> ds_state" where
  "deliver s p outcome now quota_ok =
     (case pending s p of
        None \<Rightarrow> s
      | Some req \<Rightarrow>
          (case req_attempt req of
             None \<Rightarrow>
               settle s p req (fetch_chain (req_key req) (req_options req) None) now quota_ok
           | Some i \<Rightarrow>
               (case outcome of
                  Inr r \<Rightarrow>
                    settle s p req (fetch_chain (req_key req) (req_options req) (Some r))
                      now quota_ok
                | Inl e \<Rightarrow>
                    if int i = retries (req_options req) - 1
                    then settle s p req (Inl e) now quota_ok
                    else s\<lparr>delay_log := delay_log s @ [2 ^ i * 1000],
                           attempt_log := attempt_log s @ [req_url req],
                           pending := (pending s)(p \<mapsto> req\<lparr>req_attempt := Some (Suc i)\<rparr>)\<rparr>)))"

text \<open>The outcomes of successive \<^verbatim>\<open>window.fetch\<close> calls of one request, delivered in order.\<close>

fun deliver_all ::
  "ds_state \<Rightarrow> nat \<Rightarrow> (error + response) list \<Rightarrow> int \<Rightarrow> bool \<Rightarrow> ds_state" where
  "deliver_all s p [] now quota_ok = s"
| "deliver_all s p (x # xs) now quota_ok = deliver_all (deliver s p x now quota_ok) p xs now quota_ok"

text \<open>
  What can happen while the request behind promise \<open>p\<close> for the key \<open>url\<close> is in flight:
  its outstanding \<^verbatim>\<open>window.fetch\<close> fails, or some caller calls \<^verbatim>\<open>fetch\<close> for the key with
  options and at a clock reading of its own. \<open>run_window\<close> plays such events in order and
  collects what the callers are handed.
\<close>

datatype window_event = Attempt_fails error | Caller options int

fun failures :: "window_event list \<Rightarrow> error list" where
  "failures [] = []"
| "failures (Attempt_fails e # evs) = e # failures evs"
| "failures (Caller opts t # evs) = failures evs"

fun run_window ::
  "ds_state \<Rightarrow> nat \<Rightarrow> string \<Rightarrow> window_event list \<Rightarrow> int \<Rightarrow> bool
   \<Rightarrow> fetch_result list \<times> ds_state" where
  "run_window s p url [] now quota_ok = ([], s)"
| "run_window s p url (Attempt_fails e # evs) now quota_ok =
     run_window (deliver s p (Inl e) now quota_ok) p url evs now quota_ok"
| "run_window s p url (Caller opts t # evs) now quota_ok =
     (let (r, s1) = fetch s url opts t;
          (rs, s2) = run_window s1 p url evs now quota_ok
      in (r # rs, s2))"

text \<open>
  Calls of \<^verbatim>\<open>fetch\<close> for one key with the same options, made one after the other at the
  given clock readings.
\<close>

fun fetch_calls ::
  "ds_state \<Rightarrow> string \<Rightarrow> options \<Rightarrow> int list \<Rightarrow> fetch_result list \<times> ds_state" where
  "fetch_calls s url opts [] = ([], s)"
| "fetch_calls s url opts (t # ts) =
     (let (r, s1) = fetch s url opts t;
          (rs, s2) = fetch_calls s1 url opts ts
      in (r # rs, s2))"

text \<open>
  The constructor, on a page whose localStorage holds \<open>ls\<close>: empty maps and cache version 1.2.
\<close>

definition new_DataService :: "(string \<rightharpoonup> ls_item) \<Rightarrow> ds_state" where
  "new_DataService ls =
     \<lparr>cache = Map.empty, loading = Map.empty, cacheVersion = ''1.2'', localStorage = ls,
      pending = Map.empty, settled = Map.empty, next_promise = 0,
      attempt_log = [], delay_log = []\<rparr>"

section \<open>EpisodeService, StatsService and the manual refresh\<close>

text \<open>
  Each service memoizes what it loaded (\<open>None\<close> is the initial null). The functions below are
  the synchronous parts of the async service methods: up to the call of \<^verbatim>\<open>DataService.fetch\<close>,
  whose promise they await.
\<close>

record app_state =
  ds :: ds_state
  episodes_memo :: "json option"
  stats_memo :: "json option"
  config_memo :: "json option"

definition episodes_url :: string where "episodes_url = ''/data/dialogs.json''"
definition stats_url :: string where "stats_url = ''/data/stats.json''"
definition config_url :: string where "config_url = ''/data/config.json''"

definition is_array :: "json \<Rightarrow> bool" where
  "is_array v = (case v of JArr xs \<Rightarrow> True | _ \<Rightarrow> False)"

definition episode_options :: "runtime \<Rightarrow> (nat \<Rightarrow> nat \<Rightarrow> int) \<Rightarrow> options" where
  "episode_options rt clock =
     \<lparr>opt_cache = True, cacheDuration = 300000, validator = Some is_array,
      transform = Some (\<lambda>d. case normalizeEpisodes rt clock d of
                               Inl e \<Rightarrow> Inl e
                             | Inr rs \<Rightarrow> Inr (JArr rs)),
      retries = 3\<rparr>"

definition stats_options :: options where
  "stats_options = default_options\<lparr>opt_cache := True, cacheDuration := 300000\<rparr>"

definition config_options :: options where
  "config_options = default_options\<lparr>opt_cache := True, cacheDuration := 3600000\<rparr>"

definition getAllEpisodes ::
  "runtime \<Rightarrow> (nat \<Rightarrow> nat \<Rightarrow> int) \<Rightarrow> app_state \<Rightarrow> int \<Rightarrow> fetch_result \<times> app_state" where
  "getAllEpisodes rt clock a now =
     (if truthy_v (episodes_memo a) then (Resolved (episodes_memo a), a)
      else let (r, d) = fetch (ds a) episodes_url (episode_options rt clock) now
           in (r, a\<lparr>ds := d\<rparr>))"

definition getStats :: "app_state \<Rightarrow> int \<Rightarrow> fetch_result \<times> app_state" where
  "getStats a now =
     (if truthy_v (stats_memo a) then (Resolved (stats_memo a), a)
      else let (r, d) = fetch (ds a) stats_url stats_options now
           in (r, a\<lparr>ds := d\<rparr>))"

definition getConfig :: "app_state \<Rightarrow> int \<Rightarrow> fetch_result \<times> app_state" where
  "getConfig a now =
     (if truthy_v (config_memo a) then (Resolved (config_memo a), a)
      else let (r, d) = fetch (ds a) config_url config_options now
           in (r, a\<lparr>ds := d\<rparr>))"

definition EpisodeService_reload :: "app_state \<Rightarrow> app_state" where
  "EpisodeService_reload a =
     a\<lparr>episodes_memo := None, ds := invalidate (ds a) (Some episodes_url)\<rparr>"

definition StatsService_reload :: "app_state \<Rightarrow> app_state" where
  "StatsService_reload a =
     a\<lparr>stats_memo := None, config_memo := None,
       ds := invalidate (invalidate (ds a) (Some stats_url)) (Some config_url)\<rparr>"

text \<open>
  \<^verbatim>\<open>refreshLiveData\<close> up to its await: both reloads, then the two service calls whose
  promises go to \<^verbatim>\<open>Promise.all\<close>. The button and the rendering are not modelled.
\<close>

definition refreshLiveData ::
  "runtime \<Rightarrow> (nat \<Rightarrow> nat \<Rightarrow> int) \<Rightarrow> app_state \<Rightarrow> int \<Rightarrow> (fetch_result \<times> fetch_result) \<times> app_state" where
  "refreshLiveData rt clock a now =
     (let a1 = EpisodeService_reload a;
          a2 = StatsService_reload a1;
          (episodes, a3) = getAllEpisodes rt clock a2 now;
          (stats, a4) = getStats a3 now
      in ((episodes, stats), a4))"

section \<open>The maintenance gate\<close>

definition MAINT_SESSION_PREFIX :: string where
  "MAINT_SESSION_PREFIX = ''uplink_maintenance_''"

text \<open>ASCII versions of \<^verbatim>\<open>trim\<close> and \<^verbatim>\<open>toLowerCase\<close>.\<close>

definition is_space :: "char \<Rightarrow> bool" where
  "is_space c = ((of_char c :: nat) \<in> {9, 10, 11, 12, 13, 32})"

definition trim :: "string \<Rightarrow> string" where
  "trim s = rev (dropWhile is_space (rev (dropWhile is_space s)))"

definition lower_char :: "char \<Rightarrow> char" where
  "lower_char c =
     (if 65 \<le> (of_char c :: nat) \<and> (of_char c :: nat) \<le> 90 then char_of (of_char c + 32 :: nat)
      else c)"

definition toLowerCase :: "string \<Rightarrow> string" where
  "toLowerCase s = map lower_char s"

text \<open>Optional chaining \<^verbatim>\<open>v?.k\<close>: undefined when \<open>v\<close> is null or undefined.\<close>

fun opt_chain :: "json option \<Rightarrow> string \<Rightarrow> json option" where
  "opt_chain None k = None"
| "opt_chain (Some JNull) k = None"
| "opt_chain (Some v) k = get_prop v k"

definition gate_token :: "string \<Rightarrow> string" where
  "gate_token expectedHash = (if expectedHash = [] then ''open'' else expectedHash)"

definition sessionKey :: "string \<Rightarrow> string" where
  "sessionKey expectedHash = MAINT_SESSION_PREFIX @ gate_token expectedHash"

text \<open>
  The outcome of \<^verbatim>\<open>enforceMaintenanceGate\<close>: \<open>Proceed\<close> is the return value false, and
  \<open>Gate h\<close> the return value true with the overlay shown, its handlers closed over the
  expected hash \<open>h\<close>. Both carry the session storage after the call.
\<close>

datatype gate_outcome =
    Proceed "string \<rightharpoonup> string"
  | Gate string "string \<rightharpoonup> string"

fun gate_active :: "gate_outcome \<Rightarrow> bool" where
  "gate_active (Proceed ss) = False"
| "gate_active (Gate h ss) = True"

text \<open>
  \<open>config\<close> is the loaded config document, \<open>maintenance_param\<close> the value of the
  \<^verbatim>\<open>maintenance\<close> query parameter (\<open>None\<close> when it is absent) and \<open>ss\<close> the session storage.
  Calling \<^verbatim>\<open>trim\<close> on a truthy passphrase value that is not a string raises a TypeError.
\<close>

definition expected_hash :: "json \<Rightarrow> error + string" where
  "expected_hash settings =
     (case or_default (get_prop settings ''passphrase_sha256'') (JStr []) of
        JStr h \<Rightarrow> Inr (toLowerCase (trim h))
      | _ \<Rightarrow> Inl TypeError)"

definition enforceMaintenanceGate ::
  "json option \<Rightarrow> string option \<Rightarrow> (string \<rightharpoonup> string) \<Rightarrow> error + gate_outcome" where
  "enforceMaintenanceGate config maintenance_param ss =
     (let settings = opt_chain config ''maintenance'';
          ss1 = (if maintenance_param = Some ''off''
                 then ss(''uplink_maintenance_force_off'' \<mapsto> ''1'') else ss)
      in if ss1 ''uplink_maintenance_force_off'' = Some ''1'' then Inr (Proceed ss1)
         else
           let enabledRaw = opt_chain settings ''enabled'';
               enabled = (enabledRaw = Some (JBool True) \<or> enabledRaw = Some (JStr ''true'')
                          \<or> enabledRaw = Some (JNum 1) \<or> enabledRaw = Some (JStr ''1''))
           in if \<not> enabled then Inr (Proceed ss1)
              else (case expected_hash (the settings) of
                      Inl e \<Rightarrow> Inl e
                    | Inr expectedHash \<Rightarrow>
                        (case ss1 (sessionKey expectedHash) of
                           Some stored \<Rightarrow>
                             if stored \<noteq> [] \<and> stored = gate_token expectedHash
                             then Inr (Proceed ss1)
                             else Inr (Gate expectedHash ss1)
                         | None \<Rightarrow> Inr (Gate expectedHash ss1))))"

text \<open>The \<^verbatim>\<open>unlock\<close> closure, as far as the session storage goes.\<close>

definition unlock :: "(string \<rightharpoonup> string) \<Rightarrow> string \<Rightarrow> (string \<rightharpoonup> string)" where
  "unlock ss expectedHash = ss(sessionKey expectedHash \<mapsto> gate_token expectedHash)"

datatype submit_result = PasswordMissing | HttpsRequired | WrongPassword | Unlocked

text \<open>
  The submit handler of the passphrase form. \<open>sha\<close> is \<^verbatim>\<open>hashSHA256\<close>: the hex digest
  of its argument, or \<open>None\<close> when \<^verbatim>\<open>crypto.subtle\<close> is missing.
\<close>

definition submit_passphrase ::
  "(string \<Rightarrow> string option) \<Rightarrow> string \<Rightarrow> string \<Rightarrow> (string \<rightharpoonup> string)
   \<Rightarrow> submit_result \<times> (string \<rightharpoonup> string)" where
  "submit_passphrase sha expectedHash input_value ss =
     (let entered = trim input_value in
      if entered = [] then (PasswordMissing, ss)
      else (case sha entered of
              None \<Rightarrow> (HttpsRequired, ss)
            | Some hashed \<Rightarrow>
                if hashed \<noteq> expectedHash then (WrongPassword, ss)
                else (Unlocked, unlock ss expectedHash)))"

section \<open>Router\<close>

text \<open>
  The navigation state: \<^verbatim>\<open>AppState.currentPage\<close> and \<^verbatim>\<open>AppState.currentOrder\<close>, the page
  shown in the document, \<^verbatim>\<open>window.location.hash\<close> (empty, or starting with \<open>#\<close>) with the
  number of assignments made to it, the \<^verbatim>\<open>ep\<close> query parameter, the events emitted on the bus
  and the scrolling requested. \<open>scroll_target\<close> holds the query string \<open>epRaw\<close> of a
  requested scroll: the element scrolled to is the one whose id is \<open>ep-\<close> followed by
  \<^verbatim>\<open>Number(epRaw)\<close>.
\<close>

record nav_state =
  currentPage :: string
  currentOrder :: string
  active_page :: string
  location_hash :: string
  hash_writes :: nat
  ep_param :: "string option"
  navigate_events :: "string list"
  scrolled_to_top :: nat
  scroll_target :: "string option"

definition VALID_PAGES :: "string set" where
  "VALID_PAGES = {''live'', ''protokoll'', ''dossiers'', ''info''}"

definition pageToHash :: "string \<Rightarrow> string" where
  "pageToHash page = (if page = ''protokoll'' then ''episoden'' else page)"

definition hashToPage :: "string \<Rightarrow> string" where
  "hashToPage hash = (if hash = ''episoden'' then ''protokoll'' else if hash = [] then ''live'' else hash)"

text \<open>\<^verbatim>\<open>s.replace('#', '')\<close> removes the first \<open>#\<close> of the string.\<close>

fun remove_first_hash :: "string \<Rightarrow> string" where
  "remove_first_hash [] = []"
| "remove_first_hash (c # cs) = (if c = CHR ''#'' then cs else c # remove_first_hash cs)"

text \<open>Assigning \<open>v\<close> to \<^verbatim>\<open>window.location.hash\<close>.\<close>

definition set_location_hash :: "nav_state \<Rightarrow> string \<Rightarrow> nav_state" where
  "set_location_hash n v =
     n\<lparr>location_hash := (if v = [] then [] else CHR ''#'' # v), hash_writes := Suc (hash_writes n)\<rparr>"

definition navigate :: "nav_state \<Rightarrow> string \<Rightarrow> bool \<Rightarrow> bool \<Rightarrow> nav_state" where
  "navigate n page scrollToTop updateHash =
     (let targetPage = (if page \<in> VALID_PAGES then page else ''live'');
          n1 = n\<lparr>active_page := targetPage\<rparr>;
          n2 = (if updateHash then set_location_hash n1 (pageToHash targetPage) else n1);
          n3 = (if scrollToTop then n2\<lparr>scrolled_to_top := Suc (scrolled_to_top n2)\<rparr> else n2)
      in n3\<lparr>currentPage := targetPage, navigate_events := navigate_events n3 @ [targetPage]\<rparr>)"

definition setOrder :: "nav_state \<Rightarrow> string \<Rightarrow> nav_state" where
  "setOrder n order = n\<lparr>currentOrder := order\<rparr>"

definition all_digits :: "string \<Rightarrow> bool" where
  "all_digits s = (s \<noteq> [] \<and> list_all is_digit s)"

text \<open>
  For a string of digits, \<^verbatim>\<open>Number(epRaw) < 1\<close> holds exactly when the digits denote zero.
\<close>

definition scrollToEpisodeFromQuery :: "nav_state \<Rightarrow> nav_state" where
  "scrollToEpisodeFromQuery n =
     (case ep_param n of
        None \<Rightarrow> n
      | Some epRaw \<Rightarrow>
          if \<not> all_digits epRaw then n
          else if digits_val epRaw < 1 then n
          else (setOrder n ''chrono'')\<lparr>scroll_target := Some epRaw\<rparr>)"

definition handleRoute :: "nav_state \<Rightarrow> nav_state" where
  "handleRoute n =
     (let hash0 = hashToPage (remove_first_hash (location_hash n));
          hash = (if hash0 \<notin> VALID_PAGES \<and> hash0 \<noteq> ''archiv'' then ''live'' else hash0)
      in if hash = ''archiv'' then setOrder (navigate n ''protokoll'' True True) ''phase''
         else
           let hasEpisodeQuery = (case ep_param n of Some epRaw \<Rightarrow> all_digits epRaw | None \<Rightarrow> False)
           in if currentPage n = hash \<and> \<not> (hash = ''protokoll'' \<and> hasEpisodeQuery) then n
              else
                let n1 = navigate n hash True False
                in if hash = ''protokoll'' then scrollToEpisodeFromQuery n1 else n1)"

section \<open>Properties of sortEpisodes\<close>

lemma sortEpisodes_ref: "fst (sortEpisodes h a ord) = length h"
  by (simp add: sortEpisodes_def spread_copy_def reverse_in_place_def Let_def)

lemma sortEpisodes_frame:
  "b < length h \<Longrightarrow> snd (sortEpisodes h a ord) ! b = h ! b"
  by (simp add: sortEpisodes_def spread_copy_def reverse_in_place_def Let_def nth_append)

lemma sortEpisodes_length: "length (snd (sortEpisodes h a ord)) = Suc (length h)"
  by (simp add: sortEpisodes_def spread_copy_def reverse_in_place_def Let_def)

lemma sortEpisodes_result:
  "a < length h \<Longrightarrow>
   snd (sortEpisodes h a ord) ! fst (sortEpisodes h a ord) =
     (if ord = None \<or> ord = Some ''newest'' then rev (h ! a) else h ! a)"
  by (auto simp: sortEpisodes_def spread_copy_def reverse_in_place_def Let_def nth_append
           split: option.splits)

text \<open>
  Claim C10. sortEpisodes never mutates the list it is given: every array that existed before
  the call, the argument included, has the same contents afterwards, and the result is a
  reference to a new array. With order 'chrono' the new array holds the elements in the
  original order, with order 'newest' in exactly reversed order, and sorting the result of a
  'newest' sort by 'newest' again gives the original order (still leaving the first argument
  and the intermediate array untouched).
\<close>

theorem sortEpisodes_pure_and_orders:
  assumes "a < length h"
  shows "(\<forall>ord. (\<forall>b < length h. snd (sortEpisodes h a ord) ! b = h ! b)
              \<and> fst (sortEpisodes h a ord) \<noteq> a)
       \<and> (let (r, h') = sortEpisodes h a (Some ''chrono'') in h' ! r = h ! a)
       \<and> (let (r, h') = sortEpisodes h a (Some ''newest'') in h' ! r = rev (h ! a))
       \<and> (let (r, h') = sortEpisodes h a (Some ''newest'');
               (r2, h'') = sortEpisodes h' r (Some ''newest'')
           in h'' ! r2 = h ! a \<and> h'' ! a = h ! a \<and> h'' ! r = rev (h ! a))"
proof -
  let ?n = "Some ''newest''"
  have fr: "\<forall>ord. (\<forall>b < length h. snd (sortEpisodes h a ord) ! b = h ! b)
              \<and> fst (sortEpisodes h a ord) \<noteq> a"
    using assms by (simp add: sortEpisodes_frame sortEpisodes_ref)
  have c: "snd (sortEpisodes h a (Some ''chrono'')) ! fst (sortEpisodes h a (Some ''chrono'')) = h ! a"
    using assms by (simp add: sortEpisodes_result)
  have n: "snd (sortEpisodes h a ?n) ! fst (sortEpisodes h a ?n) = rev (h ! a)"
    using assms by (simp add: sortEpisodes_result)
  obtain r h' where rh: "sortEpisodes h a ?n = (r, h')" by (cases "sortEpisodes h a ?n")
  have r: "r = length h" and len: "length h' = Suc (length h)"
    using rh sortEpisodes_ref [of h a ?n] sortEpisodes_length [of h a ?n] by simp_all
  have hr: "h' ! r = rev (h ! a)" using n rh by simp
  have ha: "h' ! a = h ! a" using sortEpisodes_frame [OF assms, of a ?n] rh by simp
  have rlt: "r < length h'" and alt: "a < length h'" using r len assms by simp_all
  have t1: "snd (sortEpisodes h' r ?n) ! fst (sortEpisodes h' r ?n) = h ! a"
    using sortEpisodes_result [OF rlt, of ?n] hr by simp
  have t2: "snd (sortEpisodes h' r ?n) ! a = h ! a"
    using sortEpisodes_frame [OF alt, of r ?n] ha by simp
  have t3: "snd (sortEpisodes h' r ?n) ! r = rev (h ! a)"
    using sortEpisodes_frame [OF rlt, of r ?n] hr by simp
  show ?thesis
    using fr c n rh t1 t2 t3 by (simp add: case_prod_beta Let_def)
qed

theorem sortEpisodes_pure_and_orders_witness:
  "(let h = [[1, 2, 3 :: nat]]; (r, h') = sortEpisodes h 0 (Some ''newest'');
        (r2, h'') = sortEpisodes h' r (Some ''newest'')
    in r = 1 \<and> h' = [[1, 2, 3], [3, 2, 1]] \<and> r2 = 2 \<and> h'' = [[1, 2, 3], [3, 2, 1], [1, 2, 3]])
   \<and> sortEpisodes [[1, 2, 3 :: nat]] 0 (Some ''chrono'') = (1, [[1, 2, 3], [1, 2, 3]])"
  using sortEpisodes_pure_and_orders [of 0 "[[1, 2, 3 :: nat]]"]
  by (simp add: sortEpisodes_def spread_copy_def reverse_in_place_def Let_def)

section \<open>Properties of the normalizer\<close>

lemma map_of_set_prop: "map_of (set_prop kvs k v) k' = (if k' = k then Some v else map_of kvs k')"
  by (induction kvs) auto

lemma or_default_eq: "or_default a c = (if truthy_v a then the a else c)"
  by (cases a) (auto simp: or_default_def)




lemma normalizeEpisode_falsy: "\<not> truthy ep \<Longrightarrow> normalizeEpisode rt now ep idx = Inr JNull"
  by (simp add: normalizeEpisode_def)

lemma normalizeEpisode_truthy_result:
  assumes "normalizeEpisode rt now ep idx = Inr r" and "truthy ep"
  shows "truthy r"
  using assms by (auto simp: normalizeEpisode_def Let_def split: sum.splits)

lemma normalizeEpisode_fields:
  assumes "normalizeEpisode rt now ep idx = Inr r" and "truthy ep"
  shows "\<exists>out. normalizeMessages rt now (or_default (get_prop ep ''date'') JNull)
                 (case get_prop ep ''messages'' of Some (JArr ms) \<Rightarrow> ms | _ \<Rightarrow> []) 0 = Inr out
               \<and> get_prop r ''messages'' = Some (JArr out)"
    and "get_prop r ''date'' = Some (or_default (get_prop ep ''date'') JNull)"
    and "get_prop r ''episode'' = Some (or_default (get_prop ep ''episode'') (JNum (int idx + 1)))"
    and "get_prop r ''terminal_blocks'' = Some (or_default (get_prop ep ''terminal_blocks'') (JArr []))"
    and "get_prop r ''score_delta'' =
           Some (or_default (or_else (get_prop ep ''score_delta'') (get_prop ep ''scoreDelta'')) (JObj []))"
    and "get_prop r ''metrics_update'' =
           Some (or_default (or_else (get_prop ep ''metrics_update'') (get_prop ep ''metricsUpdate'')) (JObj []))"
  using assms
  by (auto simp: normalizeEpisode_def Let_def map_of_set_prop split: sum.splits)

lemma mapEpisodes_filter:
  "mapEpisodes rt now eps k = Inr rs \<Longrightarrow>
   map Inr (filter truthy rs) =
     map (\<lambda>(i, ep). normalizeEpisode rt (now i) ep i) (filter (\<lambda>(i, ep). truthy ep) (enumerate k eps))"
proof (induction eps arbitrary: k rs)
  case Nil
  then show ?case by simp
next
  case (Cons ep eps)
  from Cons.prems obtain r rs' where
    r: "normalizeEpisode rt (now k) ep k = Inr r" and
    rs': "mapEpisodes rt now eps (Suc k) = Inr rs'" and
    rs: "rs = r # rs'"
    by (auto split: sum.splits)
  have tr: "truthy r = truthy ep"
    using r normalizeEpisode_truthy_result [of rt "now k" ep k r] normalizeEpisode_falsy [of ep rt "now k" k]
    by (cases "truthy ep") auto
  show ?case using Cons.IH [OF rs'] r rs tr by simp
qed

lemma normalizeEpisodes_kept:
  assumes "normalizeEpisodes rt now (JArr raw) = Inr out"
  shows "map Inr out =
     map (\<lambda>(i, ep). normalizeEpisode rt (now i) ep i) (filter (\<lambda>(i, ep). truthy ep) (enumerate 0 raw))"
  using assms mapEpisodes_filter [of rt now raw 0]
  by (auto simp: normalizeEpisodes_def split: sum.splits)

lemma map_Inr_transfer:
  assumes "map Inr out = map f xs"
      and "\<And>x r. x \<in> set xs \<Longrightarrow> f x = Inr r \<Longrightarrow> g r = h x"
  shows "map g out = map h xs"
  using assms
proof (induction xs arbitrary: out)
  case Nil
  then show ?case by simp
next
  case (Cons x xs)
  then obtain r rs where out: "out = r # rs" by (cases out) auto
  with Cons.prems(1) have fx: "f x = Inr r" and rest: "map Inr rs = map f xs" by auto
  have "g r = h x" using Cons.prems(2) [of x r] fx by simp
  moreover have "map g rs = map h xs" using Cons.IH [OF rest] Cons.prems(2) by simp
  ultimately show ?case using out by simp
qed


lemma setMinutes_shift:
  "setMinutes rt b (getMinutes rt b + int i * 3) =
     time_clip (b + utc_offset rt b + 180000 * int i
                - local_offset rt (b + utc_offset rt b + 180000 * int i))"
proof -
  have "b + utc_offset rt b - getMinutes rt b * 60000 + (getMinutes rt b + int i * 3) * 60000
        = b + utc_offset rt b + 180000 * int i"
    by (simp add: algebra_simps)
  then show ?thesis by (simp add: setMinutes_def Let_def)
qed

lemma syntheticTimestamp_eq:
  "syntheticTimestamp rt now date i =
     (case (if truthy date then date_parse rt (toStringJS date @ ''T03:14:00Z'') else Some now) of
        None \<Rightarrow> Inr JNull
      | Some b \<Rightarrow> (case time_clip (b + utc_offset rt b + 180000 * int i
                                  - local_offset rt (b + utc_offset rt b + 180000 * int i)) of
                     None \<Rightarrow> Inl RangeError
                   | Some t \<Rightarrow> Inr (JStr (toISOString t))))"
  by (simp add: syntheticTimestamp_def Let_def setMinutes_shift split: option.splits)








text \<open>
  When normalization of a batch fails as a whole, it is with the TypeError raised by a null
  entry in the messages array of some item, or with the RangeError of a synthetic timestamp
  outside the range of Date.
\<close>

lemma normalizeMessages_failure:
  "normalizeMessages rt now date msgs k = Inl e \<Longrightarrow>
   (e = TypeError \<and> JNull \<in> set msgs) \<or> e = RangeError"
proof (induction msgs arbitrary: k)
  case Nil
  then show ?case by simp
next
  case (Cons m ms)
  show ?case
  proof (cases "normalizeMessage rt (now k) date m k")
    case (Inl e')
    then have "e' = e" using Cons.prems by simp
    then show ?thesis
      using Inl
      by (auto simp: normalizeMessage_def syntheticTimestamp_eq
               split: if_splits sum.splits option.splits)
  next
    case (Inr m')
    then have "normalizeMessages rt now date ms (Suc k) = Inl e"
      using Cons.prems by (simp split: sum.splits)
    from Cons.IH [OF this] show ?thesis by auto
  qed
qed

lemma normalizeEpisode_failure:
  assumes "normalizeEpisode rt now ep idx = Inl e"
  shows "(e = TypeError \<and> truthy ep
          \<and> (\<exists>ms. get_prop ep ''messages'' = Some (JArr ms) \<and> JNull \<in> set ms))
         \<or> e = RangeError"
proof -
  let ?date = "or_default (get_prop ep ''date'') JNull"
  let ?ms = "case get_prop ep ''messages'' of Some (JArr ms) \<Rightarrow> ms | _ \<Rightarrow> []"
  have t: "truthy ep" using assms by (auto simp: normalizeEpisode_def split: if_splits)
  then have "normalizeMessages rt now ?date ?ms 0 = Inl e"
    using assms by (simp add: normalizeEpisode_def Let_def split: sum.splits)
  from normalizeMessages_failure [OF this] show ?thesis
    using t by (auto split: option.splits json.splits) metis
qed

lemma mapEpisodes_failure:
  "mapEpisodes rt now eps k = Inl e \<Longrightarrow>
   (e = TypeError \<and> (\<exists>ep \<in> set eps. truthy ep
        \<and> (\<exists>ms. get_prop ep ''messages'' = Some (JArr ms) \<and> JNull \<in> set ms)))
   \<or> e = RangeError"
proof (induction eps arbitrary: k)
  case Nil
  then show ?case by simp
next
  case (Cons ep eps)
  show ?case
  proof (cases "normalizeEpisode rt (now k) ep k")
    case (Inl e')
    then have "e' = e" using Cons.prems by simp
    with normalizeEpisode_failure [OF Inl] show ?thesis by auto
  next
    case (Inr r)
    then have "mapEpisodes rt now eps (Suc k) = Inl e"
      using Cons.prems by (simp split: sum.splits)
    from Cons.IH [OF this] show ?thesis by auto
  qed
qed

lemma normalizeEpisodes_failure:
  assumes "normalizeEpisodes rt now raw = Inl e"
  shows "(e = TypeError \<and> (\<exists>eps. raw = JArr eps \<and> (\<exists>ep \<in> set eps. truthy ep
           \<and> (\<exists>ms. get_prop ep ''messages'' = Some (JArr ms) \<and> JNull \<in> set ms))))
         \<or> e = RangeError"
proof (cases raw)
  case (JArr eps)
  then have "mapEpisodes rt now eps 0 = Inl e"
    using assms by (simp add: normalizeEpisodes_def split: sum.splits)
  from mapEpisodes_failure [OF this] show ?thesis using JArr by auto
qed (use assms in \<open>simp_all add: normalizeEpisodes_def\<close>)

text \<open>A null entry among the messages of one episode does abort the whole batch.\<close>

lemma null_message_aborts_batch:
  "normalizeEpisodes utc_runtime (const_clock 0)
     (JArr [JObj [(''title'', JStr ''a'')], JObj [(''messages'', JArr [JNull])]]) = Inl TypeError"
  by (simp add: normalizeEpisodes_def normalizeEpisode_def normalizeMessage_def
        or_default_def or_else_def)




text \<open>
  Claim C6, as amended. The sequence number of each output record is the value the source
  item supplies as \<open>episode\<close> whenever that value is truthy (any non-zero number, any non-empty
  string, true, an array or an object), and otherwise (absent, null, 0, false, the empty
  string) the 1-based position of the item in the input array, dropped items counted.
\<close>

theorem sequence_numbers:
  assumes "normalizeEpisodes rt now (JArr raw) = Inr out"
  shows "map (\<lambda>r. get_prop r ''episode'') out =
         map (\<lambda>(i, ep). Some (if truthy_v (get_prop ep ''episode'')
                               then the (get_prop ep ''episode'') else JNum (int i + 1)))
             (filter (\<lambda>(i, ep). truthy ep) (enumerate 0 raw))"
proof (rule map_Inr_transfer [OF normalizeEpisodes_kept [OF assms]])
  fix x r
  assume x: "x \<in> set (filter (\<lambda>(i, ep). truthy ep) (enumerate 0 raw))"
     and r: "(case x of (i, ep) \<Rightarrow> normalizeEpisode rt (now i) ep i) = Inr r"
  obtain i ep where xe: "x = (i, ep)" by (cases x)
  with x r have t: "truthy ep" and n: "normalizeEpisode rt (now i) ep i = Inr r" by auto
  show "get_prop r ''episode'' =
        (case x of (i, ep) \<Rightarrow> Some (if truthy_v (get_prop ep ''episode'')
                               then the (get_prop ep ''episode'') else JNum (int i + 1)))"
    using normalizeEpisode_fields(3) [OF n t] xe by (simp add: or_default_eq)
qed

text \<open>Claim C6 as stated fails: the supplied value -1 is not a positive integer, and it
  overrides the positional number 1.\<close>

theorem negative_sequence_number_wins:
  "normalizeEpisodes utc_runtime (const_clock 0) (JArr [JObj [(''episode'', JNum (- 1))]]) =
     Inr [JObj [(''episode'', JNum (- 1)), (''date'', JNull), (''messages'', JArr []),
                (''terminal_blocks'', JArr []), (''score_delta'', JObj []),
                (''metrics_update'', JObj []), (''state_snapshot'', JNull)]]"
  by (simp add: normalizeEpisodes_def normalizeEpisode_def or_default_def or_else_def)

theorem sequence_numbers_witness:
  "map (\<lambda>r. get_prop r ''episode'')
     [JObj [(''title'', JStr ''a''), (''date'', JNull), (''episode'', JNum 2), (''messages'', JArr []),
            (''terminal_blocks'', JArr []), (''score_delta'', JObj []),
            (''metrics_update'', JObj []), (''state_snapshot'', JNull)],
      JObj [(''episode'', JNum 7), (''date'', JNull), (''messages'', JArr []),
            (''terminal_blocks'', JArr []), (''score_delta'', JObj []),
            (''metrics_update'', JObj []), (''state_snapshot'', JNull)]]
   = [Some (JNum 2), Some (JNum 7)]"
proof -
  have run: "normalizeEpisodes utc_runtime (const_clock 0)
      (JArr [JBool False, JObj [(''title'', JStr ''a'')], JObj [(''episode'', JNum 7)]]) =
    Inr [JObj [(''title'', JStr ''a''), (''date'', JNull), (''episode'', JNum 2), (''messages'', JArr []),
            (''terminal_blocks'', JArr []), (''score_delta'', JObj []),
            (''metrics_update'', JObj []), (''state_snapshot'', JNull)],
      JObj [(''episode'', JNum 7), (''date'', JNull), (''messages'', JArr []),
            (''terminal_blocks'', JArr []), (''score_delta'', JObj []),
            (''metrics_update'', JObj []), (''state_snapshot'', JNull)]]"
    by (simp add: normalizeEpisodes_def normalizeEpisode_def or_default_def or_else_def)
  from sequence_numbers [OF run] show ?thesis by (simp add: enumerate_eq_zip)
qed












text \<open>
  The scenario holds in every runtime whose engine parses the standard format as prescribed
  and whose zone has a fixed offset.
\<close>

lemma scenario_in_fixed_offset_zones:
  assumes "parses_standard_format rt"
      and "\<And>t. utc_offset rt t = off" and "\<And>l. local_offset rt l = off"
  shows "normalizeEpisode rt now
     (JObj [(''date'', JStr ''2026-03-01''), (''title'', JStr ''Contact''),
            (''messages'', JArr [JObj [(''author'', JStr ''NEXUS''), (''text'', JStr ''hi'')],
                                 JObj [(''author'', JStr ''CIPHER''), (''text'', JStr ''yo'')]])]) 0
   = Inr (JObj [(''date'', JStr ''2026-03-01''), (''title'', JStr ''Contact''),
        (''messages'', JArr
          [JObj [(''author'', JStr ''NEXUS''), (''text'', JStr ''hi''),
                 (''timestamp'', JStr ''2026-03-01T03:14:00.000Z'')],
           JObj [(''author'', JStr ''CIPHER''), (''text'', JStr ''yo''),
                 (''timestamp'', JStr ''2026-03-01T03:17:00.000Z'')]]),
        (''episode'', JNum 1), (''terminal_blocks'', JArr []),
        (''score_delta'', JObj []), (''metrics_update'', JObj []),
        (''state_snapshot'', JNull)])"
proof -
  have "iso_date_time ''2026-03-01T03:14:00Z'' = Some 1772334840000" by code_simp
  then have p: "date_parse rt ''2026-03-01T03:14:00Z'' = Some 1772334840000"
    using assms(1) by (simp add: parses_standard_format_def)
  have s0: "toISOString 1772334840000 = ''2026-03-01T03:14:00.000Z''" by code_simp
  have s1: "toISOString 1772335020000 = ''2026-03-01T03:17:00.000Z''" by code_simp
  have t0: "syntheticTimestamp rt t (JStr ''2026-03-01'') 0 = Inr (JStr ''2026-03-01T03:14:00.000Z'')" for t
    by (simp add: syntheticTimestamp_eq p assms(2,3) time_clip_def s0)
  have t1: "syntheticTimestamp rt t (JStr ''2026-03-01'') (Suc 0) = Inr (JStr ''2026-03-01T03:17:00.000Z'')" for t
    by (simp add: syntheticTimestamp_eq p assms(2,3) time_clip_def s1)
  show ?thesis
    by (simp add: normalizeEpisode_def normalizeMessage_def or_default_def or_else_def t0 t1)
qed

section \<open>Properties of DataService\<close>

lemma getFromLocalStorage_frame:
  "cache (snd (getFromLocalStorage s key)) = cache s"
  "loading (snd (getFromLocalStorage s key)) = loading s"
  "cacheVersion (snd (getFromLocalStorage s key)) = cacheVersion s"
  "pending (snd (getFromLocalStorage s key)) = pending s"
  "settled (snd (getFromLocalStorage s key)) = settled s"
  "next_promise (snd (getFromLocalStorage s key)) = next_promise s"
  "attempt_log (snd (getFromLocalStorage s key)) = attempt_log s"
  "delay_log (snd (getFromLocalStorage s key)) = delay_log s"
  by (simp_all add: getFromLocalStorage_def split: option.splits ls_item.splits)

lemma getFromLocalStorage_idem:
  "getFromLocalStorage (snd (getFromLocalStorage s key)) key = getFromLocalStorage s key"
  by (simp add: getFromLocalStorage_def split: option.splits ls_item.splits)

lemma getFromLocalStorage_fixpoint:
  assumes "snd (getFromLocalStorage sa key) = sa"
      and "localStorage s1 = localStorage sa" and "cacheVersion s1 = cacheVersion sa"
  shows "getFromLocalStorage s1 key = (fst (getFromLocalStorage sa key), s1)"
proof (cases "localStorage sa (ls_key key)")
  case None
  then show ?thesis using assms(2) by (simp add: getFromLocalStorage_def)
next
  case (Some item)
  show ?thesis
  proof (cases item)
    case Unreadable
    then show ?thesis using Some assms(2) by (simp add: getFromLocalStorage_def)
  next
    case (Item v d t)
    show ?thesis
    proof (cases "v = Some (JStr (cacheVersion sa))")
      case True
      then show ?thesis using Some Item assms(2,3) by (simp add: getFromLocalStorage_def)
    next
      case False
      then have "snd (getFromLocalStorage sa key)
                   = sa\<lparr>localStorage := (localStorage sa)(ls_key key := None)\<rparr>"
        using Some Item by (simp add: getFromLocalStorage_def)
      then have "localStorage sa = (localStorage sa)(ls_key key := None)"
        using arg_cong [OF assms(1), of localStorage] by simp
      then have "localStorage sa (ls_key key) = None"
        by (metis fun_upd_same)
      then show ?thesis using Some by simp
    qed
  qed
qed

lemma start_request_fields:
  "fst (start_request s key opts) = Pending (next_promise s)"
  "cache (snd (start_request s key opts)) = cache s"
  "localStorage (snd (start_request s key opts)) = localStorage s"
  "cacheVersion (snd (start_request s key opts)) = cacheVersion s"
  "settled (snd (start_request s key opts)) = settled s"
  "delay_log (snd (start_request s key opts)) = delay_log s"
  "loading (snd (start_request s key opts)) = (loading s)(key \<mapsto> next_promise s)"
  "next_promise (snd (start_request s key opts)) = Suc (next_promise s)"
  "attempt_log (snd (start_request s key opts)) =
     attempt_log s @ (if 0 < retries opts then [addVersion s key] else [])"
  "pending (snd (start_request s key opts)) =
     (pending s)(next_promise s \<mapsto>
        \<lparr>req_key = key, req_url = addVersion s key, req_options = opts,
         req_attempt = (if 0 < retries opts then Some 0 else None)\<rparr>)"
  by (simp_all add: start_request_def Let_def)

lemma fresh_cached_mono:
  "t0 \<le> t \<Longrightarrow> fresh_cached c t d \<Longrightarrow> fresh_cached c t0 d"
  by (auto simp: fresh_cached_def split: option.splits)

lemma fresh_local_mono:
  "t0 \<le> t \<Longrightarrow> fresh_local c t d \<Longrightarrow> fresh_local c t0 d"
  by (auto simp: fresh_local_def split: option.splits)

text \<open>The three ways a call of fetch can go.\<close>

lemma fetch_memory_hit:
  "opt_cache opts \<Longrightarrow> fresh_cached (cache s key) now (cacheDuration opts) \<Longrightarrow>
   fetch s key opts now = (Resolved (data (the (cache s key))), s)"
  by (simp add: fetch_def)

lemma fetch_uncached:
  "\<not> opt_cache opts \<Longrightarrow>
   fetch s key opts now =
     (case loading s key of Some p \<Rightarrow> (Pending p, s) | None \<Rightarrow> start_request s key opts)"
  by (simp add: fetch_def fresh_local_def)

lemma fetch_local_hit:
  "opt_cache opts \<Longrightarrow> \<not> fresh_cached (cache s key) now (cacheDuration opts) \<Longrightarrow>
   fresh_local (fst (getFromLocalStorage s key)) now (cacheDuration opts) \<Longrightarrow>
   fetch s key opts now =
     (Resolved (fst (the (fst (getFromLocalStorage s key)))),
      (snd (getFromLocalStorage s key))\<lparr>cache := (cache s)(key \<mapsto>
          \<lparr>data = fst (the (fst (getFromLocalStorage s key))),
           timestamp = the (snd (the (fst (getFromLocalStorage s key))))\<rparr>)\<rparr>)"
  by (simp add: fetch_def split_def Let_def getFromLocalStorage_frame)

lemma fetch_miss:
  "opt_cache opts \<Longrightarrow> \<not> fresh_cached (cache s key) now (cacheDuration opts) \<Longrightarrow>
   \<not> fresh_local (fst (getFromLocalStorage s key)) now (cacheDuration opts) \<Longrightarrow>
   fetch s key opts now =
     (case loading s key of
        Some p \<Rightarrow> (Pending p, snd (getFromLocalStorage s key))
      | None \<Rightarrow> start_request (snd (getFromLocalStorage s key)) key opts)"
  by (simp add: fetch_def split_def Let_def getFromLocalStorage_frame)

lemma fetch_pending_cases:
  assumes "fetch s key opts now = (Pending p, s1)"
  obtains
    (uncached) "\<not> opt_cache opts"
      "(case loading s key of Some p \<Rightarrow> (Pending p, s) | None \<Rightarrow> start_request s key opts)
         = (Pending p, s1)"
  | (miss) "opt_cache opts" "\<not> fresh_cached (cache s key) now (cacheDuration opts)"
      "\<not> fresh_local (fst (getFromLocalStorage s key)) now (cacheDuration opts)"
      "(case loading s key of
          Some p \<Rightarrow> (Pending p, snd (getFromLocalStorage s key))
        | None \<Rightarrow> start_request (snd (getFromLocalStorage s key)) key opts) = (Pending p, s1)"
proof (cases "opt_cache opts")
  case False
  then show ?thesis using assms uncached by (simp add: fetch_uncached)
next
  case c: True
  show ?thesis
  proof (cases "fresh_cached (cache s key) now (cacheDuration opts)")
    case True
    then show ?thesis using assms c by (simp add: fetch_memory_hit)
  next
    case nf: False
    show ?thesis
    proof (cases "fresh_local (fst (getFromLocalStorage s key)) now (cacheDuration opts)")
      case True
      then show ?thesis using assms c nf by (simp add: fetch_local_hit)
    next
      case False
      then show ?thesis using assms c nf miss by (simp add: fetch_miss)
    qed
  qed
qed


lemma fetch_inflight_stable:
  assumes f: "fetch s key opts t0 = (Pending p, s1)" and le: "t0 \<le> t"
  shows "fetch s1 key opts t = (Pending p, s1)"
  using f
proof (cases rule: fetch_pending_cases)
  case uncached
  show ?thesis
  proof (cases "loading s key")
    case None
    with uncached(2) have sr: "start_request s key opts = (Pending p, s1)" by simp
    then have s1: "s1 = snd (start_request s key opts)" by simp
    have p: "p = next_promise s" using sr start_request_fields(1) [of s key opts] by simp
    show ?thesis using uncached(1) by (simp add: fetch_uncached s1 p start_request_fields)
  next
    case (Some q)
    with uncached(2) have "s1 = s" "q = p" by simp_all
    then show ?thesis using uncached(1) Some by (simp add: fetch_uncached)
  qed
next
  case miss
  let ?sa = "snd (getFromLocalStorage s key)"
  have fixp: "snd (getFromLocalStorage ?sa key) = ?sa"
    by (simp add: getFromLocalStorage_idem)
  have fst_sa: "fst (getFromLocalStorage ?sa key) = fst (getFromLocalStorage s key)"
    by (simp add: getFromLocalStorage_idem)
  have fields: "cache s1 = cache s \<and> localStorage s1 = localStorage ?sa
              \<and> cacheVersion s1 = cacheVersion ?sa \<and> loading s1 key = Some p"
  proof (cases "loading s key")
    case None
    with miss(4) have sr: "start_request ?sa key opts = (Pending p, s1)" by simp
    then have s1: "s1 = snd (start_request ?sa key opts)" by simp
    have p: "p = next_promise ?sa" using sr start_request_fields(1) [of ?sa key opts] by simp
    show ?thesis by (simp add: s1 p start_request_fields getFromLocalStorage_frame)
  next
    case (Some q)
    with miss(4) have "s1 = ?sa" "q = p" by simp_all
    then show ?thesis using Some by (simp add: getFromLocalStorage_frame)
  qed
  from getFromLocalStorage_fixpoint [OF fixp, of s1] fields fst_sa
  have g1: "getFromLocalStorage s1 key = (fst (getFromLocalStorage s key), s1)" by simp
  have nc: "\<not> fresh_cached (cache s1 key) t (cacheDuration opts)"
    using miss(2) fresh_cached_mono [OF le] fields by auto
  have nl: "\<not> fresh_local (fst (getFromLocalStorage s1 key)) t (cacheDuration opts)"
    using miss(3) fresh_local_mono [OF le] g1 by auto
  show ?thesis
    using fetch_miss [OF miss(1) nc nl] fields g1 by simp
qed

lemma fetch_calls_inflight:
  assumes "fetch s key opts t0 = (Pending p, s1)" and "\<forall>t \<in> set ts. t0 \<le> t"
  shows "fetch_calls s1 key opts ts = (replicate (length ts) (Pending p), s1)"
  using assms(2)
proof (induction ts)
  case Nil
  then show ?case by simp
next
  case (Cons t ts)
  then have "t0 \<le> t" by simp
  from fetch_inflight_stable [OF assms(1) this] Cons show ?case by simp
qed

lemma fetch_inflight_no_request:
  assumes "loading s key = Some p"
  shows "attempt_log (snd (fetch s key opts now)) = attempt_log s
       \<and> next_promise (snd (fetch s key opts now)) = next_promise s
       \<and> pending (snd (fetch s key opts now)) = pending s
       \<and> loading (snd (fetch s key opts now)) = loading s
       \<and> (fst (fetch s key opts now) = Pending p
          \<or> (opt_cache opts
              \<and> (fresh_cached (cache s key) now (cacheDuration opts)
                  \<or> fresh_local (fst (getFromLocalStorage s key)) now (cacheDuration opts))
              \<and> (\<exists>x. fst (fetch s key opts now) = Resolved x)))"
proof (cases "opt_cache opts")
  case False
  then show ?thesis using assms by (simp add: fetch_uncached)
next
  case c: True
  show ?thesis
  proof (cases "fresh_cached (cache s key) now (cacheDuration opts)")
    case True
    then show ?thesis using c by (simp add: fetch_memory_hit)
  next
    case nf: False
    show ?thesis
    proof (cases "fresh_local (fst (getFromLocalStorage s key)) now (cacheDuration opts)")
      case True
      then show ?thesis using c nf by (simp add: fetch_local_hit getFromLocalStorage_frame)
    next
      case False
      then show ?thesis using c nf assms by (simp add: fetch_miss getFromLocalStorage_frame)
    qed
  qed
qed

lemma fetch_result:
  "fst (fetch s key opts now) =
     (if opt_cache opts \<and> fresh_cached (cache s key) now (cacheDuration opts)
      then Resolved (data (the (cache s key)))
      else if opt_cache opts
              \<and> fresh_local (fst (getFromLocalStorage s key)) now (cacheDuration opts)
      then Resolved (fst (the (fst (getFromLocalStorage s key))))
      else Pending (case loading s key of Some p \<Rightarrow> p | None \<Rightarrow> next_promise s))"
proof (cases "opt_cache opts")
  case False
  then show ?thesis
    by (simp add: fetch_uncached start_request_fields split: option.splits)
next
  case c: True
  show ?thesis
  proof (cases "fresh_cached (cache s key) now (cacheDuration opts)")
    case True
    then show ?thesis using c by (simp add: fetch_memory_hit)
  next
    case nf: False
    show ?thesis
    proof (cases "fresh_local (fst (getFromLocalStorage s key)) now (cacheDuration opts)")
      case True
      then show ?thesis using c nf by (simp add: fetch_local_hit)
    next
      case False
      then show ?thesis using c nf
        by (simp add: fetch_miss start_request_fields getFromLocalStorage_frame split: option.splits)
    qed
  qed
qed

lemma fetch_localStorage:
  "localStorage (snd (fetch s key opts now)) =
     (if opt_cache opts \<and> \<not> fresh_cached (cache s key) now (cacheDuration opts)
      then localStorage (snd (getFromLocalStorage s key)) else localStorage s)"
proof (cases "opt_cache opts")
  case False
  then show ?thesis
    by (simp add: fetch_uncached start_request_fields split: option.splits)
next
  case c: True
  show ?thesis
  proof (cases "fresh_cached (cache s key) now (cacheDuration opts)")
    case True
    then show ?thesis using c by (simp add: fetch_memory_hit)
  next
    case nf: False
    show ?thesis
    proof (cases "fresh_local (fst (getFromLocalStorage s key)) now (cacheDuration opts)")
      case True
      then show ?thesis using c nf by (simp add: fetch_local_hit)
    next
      case False
      then show ?thesis using c nf
        by (simp add: fetch_miss start_request_fields split: option.splits)
    qed
  qed
qed

lemma fetch_frame:
  "settled (snd (fetch s key opts now)) = settled s"
  "delay_log (snd (fetch s key opts now)) = delay_log s"
  "cacheVersion (snd (fetch s key opts now)) = cacheVersion s"
proof -
  have all: "settled (snd (fetch s key opts now)) = settled s
           \<and> delay_log (snd (fetch s key opts now)) = delay_log s
           \<and> cacheVersion (snd (fetch s key opts now)) = cacheVersion s"
  proof (cases "opt_cache opts")
    case False
    then show ?thesis
      by (simp add: fetch_uncached start_request_fields split: option.splits)
  next
    case c: True
    show ?thesis
    proof (cases "fresh_cached (cache s key) now (cacheDuration opts)")
      case True
      then show ?thesis using c by (simp add: fetch_memory_hit)
    next
      case nf: False
      show ?thesis
      proof (cases "fresh_local (fst (getFromLocalStorage s key)) now (cacheDuration opts)")
        case True
        then show ?thesis using c nf by (simp add: fetch_local_hit getFromLocalStorage_frame)
      next
        case False
        then show ?thesis using c nf
          by (simp add: fetch_miss start_request_fields getFromLocalStorage_frame
                   split: option.splits)
      qed
    qed
  qed
  show "settled (snd (fetch s key opts now)) = settled s" using all by simp
  show "delay_log (snd (fetch s key opts now)) = delay_log s" using all by simp
  show "cacheVersion (snd (fetch s key opts now)) = cacheVersion s" using all by simp
qed

lemma fetch_inflight_result:
  assumes "loading s key = Some p"
  shows "fst (fetch s key opts now) =
     (if opt_cache opts \<and> fresh_cached (cache s key) now (cacheDuration opts)
      then Resolved (data (the (cache s key)))
      else if opt_cache opts
              \<and> fresh_local (fst (getFromLocalStorage s key)) now (cacheDuration opts)
      then Resolved (fst (the (fst (getFromLocalStorage s key))))
      else Pending p)"
  using fetch_result [of s key opts now] assms by simp

lemma getFromLocalStorage_mismatch:
  assumes "localStorage s (ls_key key) = Some (Item v d t)" and "v \<noteq> Some (JStr (cacheVersion s))"
  shows "getFromLocalStorage s key = (None, s\<lparr>localStorage := (localStorage s)(ls_key key := None)\<rparr>)"
  using assms by (simp add: getFromLocalStorage_def)

lemma deliver_retry:
  assumes "pending s p = Some req" and "req_attempt req = Some i"
      and "int i \<noteq> retries (req_options req) - 1"
  shows "deliver s p (Inl e) now q =
          s\<lparr>delay_log := delay_log s @ [2 ^ i * 1000],
            attempt_log := attempt_log s @ [req_url req],
            pending := (pending s)(p \<mapsto> req\<lparr>req_attempt := Some (Suc i)\<rparr>)\<rparr>"
  using assms by (simp add: deliver_def)

lemma deliver_all_retries:
  assumes "pending s p = Some req" and "req_attempt req = Some i"
      and "int (i + length es) < retries (req_options req)"
  shows "deliver_all s p (map Inl es) now q =
          s\<lparr>delay_log := delay_log s @ map (\<lambda>j. 2 ^ j * 1000) [i..<i + length es],
            attempt_log := attempt_log s @ replicate (length es) (req_url req),
            pending := (pending s)(p \<mapsto> req\<lparr>req_attempt := Some (i + length es)\<rparr>)\<rparr>"
  using assms
proof (induction es arbitrary: s req i)
  case Nil
  then have "(pending s)(p \<mapsto> req\<lparr>req_attempt := Some i\<rparr>) = pending s"
    by (simp add: fun_upd_idem)
  then show ?case by simp
next
  case (Cons e es)
  let ?req = "req\<lparr>req_attempt := Some (Suc i)\<rparr>"
  let ?s1 = "s\<lparr>delay_log := delay_log s @ [2 ^ i * 1000],
            attempt_log := attempt_log s @ [req_url req],
            pending := (pending s)(p \<mapsto> ?req)\<rparr>"
  have ne: "int i \<noteq> retries (req_options req) - 1" using Cons.prems(3) by simp
  have d: "deliver s p (Inl e) now q = ?s1"
    by (rule deliver_retry [OF Cons.prems(1,2) ne])
  have p1: "pending ?s1 p = Some ?req" by simp
  have a1: "req_attempt ?req = Some (Suc i)" by simp
  have r1: "int (Suc i + length es) < retries (req_options ?req)" using Cons.prems(3) by simp
  have "i < Suc (i + length es)" by simp
  from upt_conv_Cons [OF this]
  have up: "[i..<Suc (i + length es)] = i # [Suc i..<Suc (i + length es)]" .
  have "deliver_all s p (map Inl (e # es)) now q = deliver_all ?s1 p (map Inl es) now q"
    using d by simp
  also have "\<dots> = ?s1\<lparr>delay_log := delay_log ?s1 @ map (\<lambda>j. 2 ^ j * 1000) [Suc i..<Suc i + length es],
            attempt_log := attempt_log ?s1 @ replicate (length es) (req_url ?req),
            pending := (pending ?s1)(p \<mapsto> ?req\<lparr>req_attempt := Some (Suc i + length es)\<rparr>)\<rparr>"
    by (rule Cons.IH [OF p1 a1 r1])
  also have "\<dots> = s\<lparr>delay_log := delay_log s @ map (\<lambda>j. 2 ^ j * 1000) [i..<i + length (e # es)],
            attempt_log := attempt_log s @ replicate (length (e # es)) (req_url req),
            pending := (pending s)(p \<mapsto> req\<lparr>req_attempt := Some (i + length (e # es))\<rparr>)\<rparr>"
    by (simp add: up del: upt_Suc)
  finally show ?case .
qed

lemma settle_fields:
  "settled (settle s p req outcome now q) p = Some outcome"
  "loading (settle s p req outcome now q) (req_key req) = None"
  "pending (settle s p req outcome now q) p = None"
  "delay_log (settle s p req outcome now q) = delay_log s"
  "attempt_log (settle s p req outcome now q) = attempt_log s"
  "next_promise (settle s p req outcome now q) = next_promise s"
  "cacheVersion (settle s p req outcome now q) = cacheVersion s"
  by (simp_all add: settle_def saveToLocalStorage_def Let_def split: sum.splits)

lemma settle_failure_caches:
  "cache (settle s p req (Inl e) now q) = cache s"
  "localStorage (settle s p req (Inl e) now q) = localStorage s"
  by (simp_all add: settle_def Let_def)

lemma deliver_all_append:
  "deliver_all s p (xs @ ys) now q = deliver_all (deliver_all s p xs now q) p ys now q"
  by (induction xs arbitrary: s) simp_all

lemma run_window_append_caller:
  "run_window s p url (evs @ [Caller opts t]) now q =
     (fst (run_window s p url evs now q)
        @ [fst (fetch (snd (run_window s p url evs now q)) url opts t)],
      snd (fetch (snd (run_window s p url evs now q)) url opts t))"
proof (induction evs arbitrary: s)
  case Nil
  then show ?case by (simp add: split_def Let_def)
next
  case (Cons ev evs)
  show ?case
  proof (cases ev)
    case (Attempt_fails e)
    then show ?thesis using Cons.IH [of "deliver s p (Inl e) now q"] by simp
  next
    case (Caller o' t')
    then show ?thesis using Cons.IH [of "snd (fetch s url o' t')"] by (simp add: split_def Let_def)
  qed
qed

lemma run_window_inflight:
  assumes "pending s p = Some req" and "req_attempt req = Some i"
      and "loading s (req_key req) = Some p"
      and "int (i + length (failures evs)) < retries (req_options req)"
  shows "pending (snd (run_window s p (req_key req) evs now q)) p =
           Some (req\<lparr>req_attempt := Some (i + length (failures evs))\<rparr>)
       \<and> loading (snd (run_window s p (req_key req) evs now q)) = loading s
       \<and> settled (snd (run_window s p (req_key req) evs now q)) = settled s
       \<and> next_promise (snd (run_window s p (req_key req) evs now q)) = next_promise s
       \<and> cacheVersion (snd (run_window s p (req_key req) evs now q)) = cacheVersion s
       \<and> delay_log (snd (run_window s p (req_key req) evs now q)) =
           delay_log s @ map (\<lambda>j. 2 ^ j * 1000) [i..<i + length (failures evs)]
       \<and> attempt_log (snd (run_window s p (req_key req) evs now q)) =
           attempt_log s @ replicate (length (failures evs)) (req_url req)"
  using assms
proof (induction evs arbitrary: s req i)
  case Nil
  then show ?case by simp
next
  case (Cons ev evs)
  show ?case
  proof (cases ev)
    case (Attempt_fails e)
    let ?req = "req\<lparr>req_attempt := Some (Suc i)\<rparr>"
    let ?s1 = "s\<lparr>delay_log := delay_log s @ [2 ^ i * 1000],
              attempt_log := attempt_log s @ [req_url req],
              pending := (pending s)(p \<mapsto> ?req)\<rparr>"
    have len: "length (failures (ev # evs)) = Suc (length (failures evs))"
      using Attempt_fails by simp
    have ne: "int i \<noteq> retries (req_options req) - 1" using Cons.prems(4) len by simp
    have d: "deliver s p (Inl e) now q = ?s1"
      by (rule deliver_retry [OF Cons.prems(1,2) ne])
    have p1: "pending ?s1 p = Some ?req" by simp
    have a1: "req_attempt ?req = Some (Suc i)" by simp
    have l1: "loading ?s1 (req_key ?req) = Some p" using Cons.prems(3) by simp
    have r1: "int (Suc i + length (failures evs)) < retries (req_options ?req)"
      using Cons.prems(4) len by simp
    have "i < Suc (i + length (failures evs))" by simp
    from upt_conv_Cons [OF this]
    have up: "[i..<Suc (i + length (failures evs))] = i # [Suc i..<Suc (i + length (failures evs))]" .
    have run: "run_window s p (req_key req) (ev # evs) now q = run_window ?s1 p (req_key req) evs now q"
      using Attempt_fails d by simp
    have k: "req_key ?req = req_key req" by simp
    note ih = Cons.IH [OF p1 a1 l1 r1, unfolded k]
    show ?thesis
      unfolding run len using ih by (simp add: up del: upt_Suc)
  next
    case (Caller opts t)
    let ?s1 = "snd (fetch s (req_key req) opts t)"
    have len: "length (failures (ev # evs)) = length (failures evs)"
      using Caller by simp
    note a = fetch_inflight_no_request [OF Cons.prems(3), of opts t]
    have p1: "pending ?s1 p = Some req" using a Cons.prems(1) by simp
    have l1: "loading ?s1 (req_key req) = Some p" using a Cons.prems(3) by simp
    have r1: "int (i + length (failures evs)) < retries (req_options req)"
      using Cons.prems(4) len by simp
    have run: "snd (run_window s p (req_key req) (ev # evs) now q)
                 = snd (run_window ?s1 p (req_key req) evs now q)"
      using Caller by (simp add: split_def Let_def)
    note ih = Cons.IH [OF p1 Cons.prems(2) l1 r1]
    have fr: "pending ?s1 p = pending s p" "loading ?s1 = loading s" "settled ?s1 = settled s"
             "next_promise ?s1 = next_promise s" "cacheVersion ?s1 = cacheVersion s"
             "delay_log ?s1 = delay_log s" "attempt_log ?s1 = attempt_log s"
      using a fetch_frame [of s "req_key req" opts t] by simp_all
    show ?thesis
      unfolding run len using ih by (simp only: fr)
  qed
qed

lemma run_window_results:
  assumes "pending s p = Some req" and "req_attempt req = Some i"
      and "loading s (req_key req) = Some p"
      and "int (i + length (failures evs)) < retries (req_options req)"
  shows "\<forall>r \<in> set (fst (run_window s p (req_key req) evs now q)).
           r = Pending p \<or> (\<exists>x. r = Resolved x)"
  using assms
proof (induction evs arbitrary: s req i)
  case Nil
  then show ?case by simp
next
  case (Cons ev evs)
  show ?case
  proof (cases ev)
    case (Attempt_fails e)
    let ?req = "req\<lparr>req_attempt := Some (Suc i)\<rparr>"
    let ?s1 = "s\<lparr>delay_log := delay_log s @ [2 ^ i * 1000],
              attempt_log := attempt_log s @ [req_url req],
              pending := (pending s)(p \<mapsto> ?req)\<rparr>"
    have len: "length (failures (ev # evs)) = Suc (length (failures evs))"
      using Attempt_fails by simp
    have ne: "int i \<noteq> retries (req_options req) - 1" using Cons.prems(4) len by simp
    have d: "deliver s p (Inl e) now q = ?s1"
      by (rule deliver_retry [OF Cons.prems(1,2) ne])
    have p1: "pending ?s1 p = Some ?req" by simp
    have a1: "req_attempt ?req = Some (Suc i)" by simp
    have l1: "loading ?s1 (req_key ?req) = Some p" using Cons.prems(3) by simp
    have r1: "int (Suc i + length (failures evs)) < retries (req_options ?req)"
      using Cons.prems(4) len by simp
    have run: "run_window s p (req_key req) (ev # evs) now q = run_window ?s1 p (req_key req) evs now q"
      using Attempt_fails d by simp
    have k: "req_key ?req = req_key req" by simp
    note ih = Cons.IH [OF p1 a1 l1 r1, unfolded k]
    show ?thesis unfolding run using ih .
  next
    case (Caller opts t)
    let ?s1 = "snd (fetch s (req_key req) opts t)"
    have len: "length (failures (ev # evs)) = length (failures evs)"
      using Caller by simp
    note a = fetch_inflight_no_request [OF Cons.prems(3), of opts t]
    have p1: "pending ?s1 p = Some req" using a Cons.prems(1) by simp
    have l1: "loading ?s1 (req_key req) = Some p" using a Cons.prems(3) by simp
    have r1: "int (i + length (failures evs)) < retries (req_options req)"
      using Cons.prems(4) len by simp
    have run: "fst (run_window s p (req_key req) (ev # evs) now q)
                 = fst (fetch s (req_key req) opts t) # fst (run_window ?s1 p (req_key req) evs now q)"
      using Caller by (simp add: split_def Let_def)
    have hd: "fst (fetch s (req_key req) opts t) = Pending p
              \<or> (\<exists>x. fst (fetch s (req_key req) opts t) = Resolved x)"
      using a by blast
    note ih = Cons.IH [OF p1 Cons.prems(2) l1 r1]
    show ?thesis unfolding run using ih hd by simp
  qed
qed

lemmas run_simps =
  fetch_def start_request_def deliver_def settle_def fetch_chain_def response_ok_def
  saveToLocalStorage_def getFromLocalStorage_def fresh_cached_def fresh_local_def
  addVersion_def new_DataService_def default_options_def ls_key_def Let_def

text \<open>
  Claim C1, as amended. While a request for a key is in flight, a further call of fetch with
  that key never issues a second network request: it creates no promise, logs no
  \<^verbatim>\<open>window.fetch\<close>, settles nothing and leaves the in-flight marker alone. The cache tiers
  are looked up before the in-flight marker, with the options of the call: when they make the
  entry of the memory tier fresh, the call resolves with the payload of that entry; otherwise,
  when they make the entry of the persistent tier fresh, with the payload of that one; and in
  every other case the call returns the pending promise of the request in flight. In
  particular, when a call starts a request, any number of further calls with the same key and
  the same options, at clock readings not earlier than that of the first call, all return
  that same promise, and the whole group has issued exactly one request: one new pending
  promise and, for \<open>retries > 0\<close>, one \<^verbatim>\<open>window.fetch\<close>.
\<close>

theorem inflight_requests_coalesce:
  "(loading s key = Some p \<longrightarrow>
      fst (fetch s key opts now) =
        (if opt_cache opts \<and> fresh_cached (cache s key) now (cacheDuration opts)
         then Resolved (data (the (cache s key)))
         else if opt_cache opts
                 \<and> fresh_local (fst (getFromLocalStorage s key)) now (cacheDuration opts)
         then Resolved (fst (the (fst (getFromLocalStorage s key))))
         else Pending p)
    \<and> attempt_log (snd (fetch s key opts now)) = attempt_log s
    \<and> next_promise (snd (fetch s key opts now)) = next_promise s
    \<and> pending (snd (fetch s key opts now)) = pending s
    \<and> loading (snd (fetch s key opts now)) = loading s
    \<and> settled (snd (fetch s key opts now)) = settled s)
   \<and> (loading s key = None \<and> fst (fetch s key opts t0) = Pending p \<and> (\<forall>t \<in> set ts. t0 \<le> t) \<longrightarrow>
        fst (fetch_calls s key opts (t0 # ts)) = replicate (Suc (length ts)) (Pending p)
      \<and> attempt_log (snd (fetch_calls s key opts (t0 # ts))) =
          attempt_log s @ (if 0 < retries opts then [addVersion s key] else [])
      \<and> next_promise (snd (fetch_calls s key opts (t0 # ts))) = Suc (next_promise s)
      \<and> pending (snd (fetch_calls s key opts (t0 # ts))) =
          (pending s)(p \<mapsto> \<lparr>req_key = key, req_url = addVersion s key, req_options = opts,
                             req_attempt = (if 0 < retries opts then Some 0 else None)\<rparr>)
      \<and> loading (snd (fetch_calls s key opts (t0 # ts))) key = Some p)"
proof (intro conjI impI)
  assume l: "loading s key = Some p"
  note a = fetch_inflight_no_request [OF l, of opts now]
  show "fst (fetch s key opts now) =
        (if opt_cache opts \<and> fresh_cached (cache s key) now (cacheDuration opts)
         then Resolved (data (the (cache s key)))
         else if opt_cache opts
                 \<and> fresh_local (fst (getFromLocalStorage s key)) now (cacheDuration opts)
         then Resolved (fst (the (fst (getFromLocalStorage s key))))
         else Pending p)"
    by (rule fetch_inflight_result [OF l])
  show "attempt_log (snd (fetch s key opts now)) = attempt_log s" using a by simp
  show "next_promise (snd (fetch s key opts now)) = next_promise s" using a by simp
  show "pending (snd (fetch s key opts now)) = pending s" using a by simp
  show "loading (snd (fetch s key opts now)) = loading s" using a by simp
  show "settled (snd (fetch s key opts now)) = settled s" by (rule fetch_frame(1))
next
  assume h: "loading s key = None \<and> fst (fetch s key opts t0) = Pending p \<and> (\<forall>t \<in> set ts. t0 \<le> t)"
  obtain s1 where f: "fetch s key opts t0 = (Pending p, s1)"
    using h by (cases "fetch s key opts t0") auto
  have ts: "\<forall>t \<in> set ts. t0 \<le> t" using h by simp
  have calls: "fetch_calls s key opts (t0 # ts) = (replicate (Suc (length ts)) (Pending p), s1)"
    using f fetch_calls_inflight [OF f ts] by simp
  have "\<exists>sa. s1 = snd (start_request sa key opts) \<and> p = next_promise sa
          \<and> attempt_log sa = attempt_log s \<and> next_promise sa = next_promise s
          \<and> pending sa = pending s \<and> cacheVersion sa = cacheVersion s"
    using f
  proof (cases rule: fetch_pending_cases)
    case uncached
    then have sr: "start_request s key opts = (Pending p, s1)" using h by simp
    then have "s1 = snd (start_request s key opts)" by simp
    moreover have "p = next_promise s" using sr start_request_fields(1) [of s key opts] by simp
    ultimately show ?thesis by blast
  next
    case miss
    let ?sa = "snd (getFromLocalStorage s key)"
    from miss(4) have sr: "start_request ?sa key opts = (Pending p, s1)" using h by simp
    then have "s1 = snd (start_request ?sa key opts)" by simp
    moreover have "p = next_promise ?sa" using sr start_request_fields(1) [of ?sa key opts] by simp
    ultimately show ?thesis using getFromLocalStorage_frame [of s key] by blast
  qed
  then obtain sa where sa: "s1 = snd (start_request sa key opts)" "p = next_promise sa"
      "attempt_log sa = attempt_log s" "next_promise sa = next_promise s"
      "pending sa = pending s" "cacheVersion sa = cacheVersion s"
    by blast
  have av: "addVersion sa key = addVersion s key" using sa(6) by (simp add: addVersion_def)
  show "fst (fetch_calls s key opts (t0 # ts)) = replicate (Suc (length ts)) (Pending p)"
    using calls by simp
  show "attempt_log (snd (fetch_calls s key opts (t0 # ts))) =
          attempt_log s @ (if 0 < retries opts then [addVersion s key] else [])"
    using calls sa av by (simp add: start_request_fields)
  show "next_promise (snd (fetch_calls s key opts (t0 # ts))) = Suc (next_promise s)"
    using calls sa by (simp add: start_request_fields)
  show "pending (snd (fetch_calls s key opts (t0 # ts))) =
          (pending s)(p \<mapsto> \<lparr>req_key = key, req_url = addVersion s key, req_options = opts,
                             req_attempt = (if 0 < retries opts then Some 0 else None)\<rparr>)"
    using calls sa av by (simp add: start_request_fields)
  show "loading (snd (fetch_calls s key opts (t0 # ts))) key = Some p"
    using calls sa by (simp add: start_request_fields)
qed

text \<open>
  Claim C1 as stated fails when the calls differ in their options. A payload cached at time 0
  is 5000 ms old. A call with a TTL of 1000 ms finds it stale and starts request 1; while that
  request is in flight, a call for the same key with the default TTL of one hour finds the
  old entry fresh and resolves with the old payload instead of joining promise 1.
\<close>

theorem longer_ttl_bypasses_inflight:
  "fst (fetch (deliver (snd (fetch (new_DataService Map.empty) ''/x'' default_options 0)) 0
                 (Inr \<lparr>status = 200, statusText = ''OK'', body = Some (JNum 1)\<rparr>) 0 True)
          ''/x'' (default_options\<lparr>cacheDuration := 1000\<rparr>) 5000) = Pending 1
   \<and> loading (snd (fetch (deliver (snd (fetch (new_DataService Map.empty) ''/x'' default_options 0)) 0
                 (Inr \<lparr>status = 200, statusText = ''OK'', body = Some (JNum 1)\<rparr>) 0 True)
          ''/x'' (default_options\<lparr>cacheDuration := 1000\<rparr>) 5000)) ''/x'' = Some 1
   \<and> fst (fetch (snd (fetch (deliver (snd (fetch (new_DataService Map.empty) ''/x'' default_options 0)) 0
                 (Inr \<lparr>status = 200, statusText = ''OK'', body = Some (JNum 1)\<rparr>) 0 True)
          ''/x'' (default_options\<lparr>cacheDuration := 1000\<rparr>) 5000))
        ''/x'' default_options 5000) = Resolved (Some (JNum 1))"
  by (simp add: run_simps)

theorem inflight_requests_coalesce_witness:
  "fetch_calls (new_DataService Map.empty) ''/data/stats.json'' default_options [10, 10, 12] =
     ([Pending 0, Pending 0, Pending 0],
      snd (fetch (new_DataService Map.empty) ''/data/stats.json'' default_options 10))
   \<and> attempt_log (snd (fetch_calls (new_DataService Map.empty) ''/data/stats.json''
                          default_options [10, 10, 12])) = [''/data/stats.json?v=1.2'']
   \<and> fst (fetch (snd (fetch (new_DataService Map.empty) ''/data/stats.json'' default_options 10))
          ''/data/stats.json'' default_options 11) = Pending 0"
proof -
  let ?s = "new_DataService Map.empty"
  let ?k = "''/data/stats.json''"
  have l: "loading ?s ?k = None" by (simp add: new_DataService_def)
  have f: "fst (fetch ?s ?k default_options 10) = Pending 0" by (simp add: run_simps)
  have t: "\<forall>t \<in> set [10, 12 :: int]. 10 \<le> t" by simp
  have r: "0 < retries default_options" by (simp add: default_options_def)
  have l1: "loading (snd (fetch ?s ?k default_options 10)) ?k = Some 0" by (simp add: run_simps)
  have av: "addVersion ?s ?k = ''/data/stats.json?v=1.2''"
    by (simp add: addVersion_def new_DataService_def encodeURIComponent_def uri_unreserved_def)
  have nc: "\<not> fresh_cached (cache (snd (fetch ?s ?k default_options 10)) ?k) 11
              (cacheDuration default_options)"
    by (simp add: run_simps)
  have nl: "\<not> fresh_local (fst (getFromLocalStorage (snd (fetch ?s ?k default_options 10)) ?k)) 11
              (cacheDuration default_options)"
    by (simp add: run_simps)
  note one = inflight_requests_coalesce [where s = "snd (fetch ?s ?k default_options 10)"
         and key = ?k and p = 0 and opts = default_options and now = 11 and ?t0.0 = 10 and ts = "[]"]
  note many = inflight_requests_coalesce [where s = ?s and key = ?k and p = 0
         and opts = default_options and now = 0 and ?t0.0 = 10 and ts = "[10, 12]"]
  have a: "fst (fetch (snd (fetch ?s ?k default_options 10)) ?k default_options 11) = Pending 0"
    using one l1 nc nl by simp
  have b: "fst (fetch_calls ?s ?k default_options [10, 10, 12]) = [Pending 0, Pending 0, Pending 0]
         \<and> attempt_log (snd (fetch_calls ?s ?k default_options [10, 10, 12])) = [''/data/stats.json?v=1.2'']"
    using many l f t r av by (simp add: new_DataService_def)
  have c: "snd (fetch_calls ?s ?k default_options [10, 10, 12]) = snd (fetch ?s ?k default_options 10)"
    using fetch_calls_inflight [of ?s ?k default_options 10 0 "snd (fetch ?s ?k default_options 10)" "[10, 12]"] f
    by (simp add: prod_eq_iff split_def)
  show ?thesis using a b c by (simp add: prod_eq_iff)
qed

text \<open>
  Claim C2, as amended. Let a request with \<open>retries = n > 0\<close> be in flight with its first
  \<^verbatim>\<open>window.fetch\<close> outstanding. A transport failure is retried: after \<open>k < n\<close> failures
  the request is still in flight, \<open>k\<close> further calls of \<^verbatim>\<open>window.fetch\<close> have been made and
  the delays slept are 1000, 2000, ..., \<open>2^(k-1) * 1000\<close> ms; a response that then arrives
  settles the promise with what the chain makes of it, without further attempts. A response
  with a status outside 200..299 makes the chain fail with the error carrying that status. When
  all \<open>n\<close> attempts fail (\<open>n - 1\<close> retries), the promise is rejected with the last failure, the
  in-flight marker is deleted and nothing is cached.

  The same holds when callers ask for the key during the failure window, whatever their
  options and clock readings: they start no request and settle nothing, and each of them is
  handed the pending promise \<open>p\<close> unless its own options make an entry of the memory or the
  persistent tier fresh, in which case it is answered with the payload of that entry. The
  response that arrives after fewer than \<open>n\<close> failures settles \<open>p\<close> with what the chain makes
  of it: the payload, for a response with a success status and a body when the request has no
  validator and no transform. The \<open>n\<close>-th failure rejects \<open>p\<close> with that failure. So the
  callers of the failure window who were handed \<open>p\<close> all receive the one outcome of \<open>p\<close>; a
  caller answered from a cache tier receives the cached payload instead.
\<close>

theorem retry_policy:
  assumes "pending s p = Some req" and "req_attempt req = Some 0"
      and "retries (req_options req) = int n" and "0 < n"
      and "loading s (req_key req) = Some p"
  shows "(\<forall>es. length es < n \<longrightarrow>
            loading (deliver_all s p (map Inl es) now q) (req_key req) = Some p
          \<and> settled (deliver_all s p (map Inl es) now q) p = settled s p
          \<and> cache (deliver_all s p (map Inl es) now q) = cache s
          \<and> localStorage (deliver_all s p (map Inl es) now q) = localStorage s
          \<and> delay_log (deliver_all s p (map Inl es) now q) =
               delay_log s @ map (\<lambda>j. 2 ^ j * 1000) [0..<length es]
          \<and> attempt_log (deliver_all s p (map Inl es) now q) =
               attempt_log s @ replicate (length es) (req_url req))
       \<and> (\<forall>es resp. length es < n \<longrightarrow>
            settled (deliver_all s p (map Inl es @ [Inr resp]) now q) p =
               Some (fetch_chain (req_key req) (req_options req) (Some resp))
          \<and> delay_log (deliver_all s p (map Inl es @ [Inr resp]) now q) =
               delay_log s @ map (\<lambda>j. 2 ^ j * 1000) [0..<length es]
          \<and> attempt_log (deliver_all s p (map Inl es @ [Inr resp]) now q) =
               attempt_log s @ replicate (length es) (req_url req)
          \<and> loading (deliver_all s p (map Inl es @ [Inr resp]) now q) (req_key req) = None
          \<and> pending (deliver_all s p (map Inl es @ [Inr resp]) now q) p = None)
       \<and> (\<forall>resp. \<not> response_ok resp \<longrightarrow>
            fetch_chain (req_key req) (req_options req) (Some resp) =
              Inl (HttpStatusError (status resp) (statusText resp)))
       \<and> (\<forall>es. length es = n \<longrightarrow>
            settled (deliver_all s p (map Inl es) now q) p = Some (Inl (last es))
          \<and> delay_log (deliver_all s p (map Inl es) now q) =
               delay_log s @ map (\<lambda>j. 2 ^ j * 1000) [0..<n - 1]
          \<and> attempt_log (deliver_all s p (map Inl es) now q) =
               attempt_log s @ replicate (n - 1) (req_url req)
          \<and> loading (deliver_all s p (map Inl es) now q) (req_key req) = None
          \<and> pending (deliver_all s p (map Inl es) now q) p = None
          \<and> cache (deliver_all s p (map Inl es) now q) = cache s
          \<and> localStorage (deliver_all s p (map Inl es) now q) = localStorage s)
       \<and> (\<forall>evs. length (failures evs) < n \<longrightarrow>
            loading (snd (run_window s p (req_key req) evs now q)) (req_key req) = Some p
          \<and> settled (snd (run_window s p (req_key req) evs now q)) = settled s
          \<and> next_promise (snd (run_window s p (req_key req) evs now q)) = next_promise s
          \<and> delay_log (snd (run_window s p (req_key req) evs now q)) =
               delay_log s @ map (\<lambda>j. 2 ^ j * 1000) [0..<length (failures evs)]
          \<and> attempt_log (snd (run_window s p (req_key req) evs now q)) =
               attempt_log s @ replicate (length (failures evs)) (req_url req)
          \<and> (\<forall>r \<in> set (fst (run_window s p (req_key req) evs now q)).
                r = Pending p \<or> (\<exists>x. r = Resolved x)))
       \<and> (\<forall>evs opts t. length (failures evs) < n \<longrightarrow>
            fst (run_window s p (req_key req) (evs @ [Caller opts t]) now q) =
              fst (run_window s p (req_key req) evs now q) @
              [if opt_cache opts
                  \<and> fresh_cached (cache (snd (run_window s p (req_key req) evs now q)) (req_key req))
                       t (cacheDuration opts)
               then Resolved (data (the
                      (cache (snd (run_window s p (req_key req) evs now q)) (req_key req))))
               else if opt_cache opts
                  \<and> fresh_local (fst (getFromLocalStorage
                         (snd (run_window s p (req_key req) evs now q)) (req_key req)))
                       t (cacheDuration opts)
               then Resolved (fst (the (fst (getFromLocalStorage
                         (snd (run_window s p (req_key req) evs now q)) (req_key req)))))
               else Pending p])
       \<and> (\<forall>evs resp t. length (failures evs) < n \<longrightarrow>
            settled (deliver (snd (run_window s p (req_key req) evs now q)) p (Inr resp) t q) p =
               Some (fetch_chain (req_key req) (req_options req) (Some resp))
          \<and> loading (deliver (snd (run_window s p (req_key req) evs now q)) p (Inr resp) t q)
               (req_key req) = None)
       \<and> (\<forall>evs e t. length (failures evs) = n - 1 \<longrightarrow>
            settled (deliver (snd (run_window s p (req_key req) evs now q)) p (Inl e) t q) p =
               Some (Inl e)
          \<and> loading (deliver (snd (run_window s p (req_key req) evs now q)) p (Inl e) t q)
               (req_key req) = None)
       \<and> (\<forall>resp d. response_ok resp \<and> body resp = Some d
                    \<and> validator (req_options req) = None \<and> transform (req_options req) = None \<longrightarrow>
            fetch_chain (req_key req) (req_options req) (Some resp) = Inr d)"
proof -
  let ?f = "\<lambda>j::nat. (2 ^ j * 1000 :: int)"
  let ?K = "req_key req"
  have retried: "deliver_all s p (map Inl es) now q =
          s\<lparr>delay_log := delay_log s @ map ?f [0..<length es],
            attempt_log := attempt_log s @ replicate (length es) (req_url req),
            pending := (pending s)(p \<mapsto> req\<lparr>req_attempt := Some (length es)\<rparr>)\<rparr>"
    if "length es < n" for es
    using deliver_all_retries [OF assms(1,2), of es now q] that assms(3) by simp
  have part1: "loading (deliver_all s p (map Inl es) now q) (req_key req) = Some p
          \<and> settled (deliver_all s p (map Inl es) now q) p = settled s p
          \<and> cache (deliver_all s p (map Inl es) now q) = cache s
          \<and> localStorage (deliver_all s p (map Inl es) now q) = localStorage s
          \<and> delay_log (deliver_all s p (map Inl es) now q) = delay_log s @ map ?f [0..<length es]
          \<and> attempt_log (deliver_all s p (map Inl es) now q) =
               attempt_log s @ replicate (length es) (req_url req)"
    if "length es < n" for es
    using retried [OF that] assms(5) by simp
  have part2: "settled (deliver_all s p (map Inl es @ [Inr resp]) now q) p =
               Some (fetch_chain (req_key req) (req_options req) (Some resp))
          \<and> delay_log (deliver_all s p (map Inl es @ [Inr resp]) now q) =
               delay_log s @ map ?f [0..<length es]
          \<and> attempt_log (deliver_all s p (map Inl es @ [Inr resp]) now q) =
               attempt_log s @ replicate (length es) (req_url req)
          \<and> loading (deliver_all s p (map Inl es @ [Inr resp]) now q) (req_key req) = None
          \<and> pending (deliver_all s p (map Inl es @ [Inr resp]) now q) p = None"
    if "length es < n" for es resp
  proof -
    let ?s1 = "deliver_all s p (map Inl es) now q"
    let ?req = "req\<lparr>req_attempt := Some (length es)\<rparr>"
    have p1: "pending ?s1 p = Some ?req" using retried [OF that] by simp
    have "deliver_all s p (map Inl es @ [Inr resp]) now q = deliver ?s1 p (Inr resp) now q"
      by (simp add: deliver_all_append)
    also have "\<dots> = settle ?s1 p ?req (fetch_chain (req_key req) (req_options req) (Some resp)) now q"
      using p1 by (simp add: deliver_def)
    finally show ?thesis
      using settle_fields [of ?s1 p ?req _ now q] part1 [OF that] by simp
  qed
  have part3: "fetch_chain (req_key req) (req_options req) (Some resp) =
              Inl (HttpStatusError (status resp) (statusText resp))"
    if "\<not> response_ok resp" for resp
    using that by (simp add: fetch_chain_def)
  have part4: "settled (deliver_all s p (map Inl es) now q) p = Some (Inl (last es))
          \<and> delay_log (deliver_all s p (map Inl es) now q) = delay_log s @ map ?f [0..<n - 1]
          \<and> attempt_log (deliver_all s p (map Inl es) now q) =
               attempt_log s @ replicate (n - 1) (req_url req)
          \<and> loading (deliver_all s p (map Inl es) now q) (req_key req) = None
          \<and> pending (deliver_all s p (map Inl es) now q) p = None
          \<and> cache (deliver_all s p (map Inl es) now q) = cache s
          \<and> localStorage (deliver_all s p (map Inl es) now q) = localStorage s"
    if "length es = n" for es
  proof -
    have ne: "es \<noteq> []" using that assms(4) by auto
    let ?init = "butlast es"
    have es: "es = ?init @ [last es]" using ne by simp
    have li: "length ?init = n - 1" using that by simp
    then have lt: "length ?init < n" using assms(4) by simp
    let ?s1 = "deliver_all s p (map Inl ?init) now q"
    let ?req = "req\<lparr>req_attempt := Some (length ?init)\<rparr>"
    have p1: "pending ?s1 p = Some ?req" using retried [OF lt] by simp
    have final: "int (length ?init) = retries (req_options ?req) - 1"
      using li assms(3,4) by simp
    have "deliver_all s p (map Inl es) now q = deliver_all s p (map Inl ?init @ [Inl (last es)]) now q"
      using es by (metis list.simps(8,9) map_append)
    also have "\<dots> = deliver ?s1 p (Inl (last es)) now q"
      by (simp add: deliver_all_append)
    also have "\<dots> = settle ?s1 p ?req (Inl (last es)) now q"
      using p1 final by (simp add: deliver_def)
    finally show ?thesis
      using settle_fields [of ?s1 p ?req "Inl (last es)" now q]
            settle_failure_caches [of ?s1 p ?req "last es" now q] part1 [OF lt] li
      by simp
  qed
  have inflight: "pending (snd (run_window s p ?K evs now q)) p =
                    Some (req\<lparr>req_attempt := Some (length (failures evs))\<rparr>)
       \<and> loading (snd (run_window s p ?K evs now q)) = loading s
       \<and> settled (snd (run_window s p ?K evs now q)) = settled s
       \<and> next_promise (snd (run_window s p ?K evs now q)) = next_promise s
       \<and> delay_log (snd (run_window s p ?K evs now q)) =
           delay_log s @ map ?f [0..<length (failures evs)]
       \<and> attempt_log (snd (run_window s p ?K evs now q)) =
           attempt_log s @ replicate (length (failures evs)) (req_url req)"
    if "length (failures evs) < n" for evs
  proof -
    have "int (0 + length (failures evs)) < retries (req_options req)"
      using that assms(3) by simp
    from run_window_inflight [OF assms(1,2,5) this, of now q]
    show ?thesis by simp
  qed
  have results: "\<forall>r \<in> set (fst (run_window s p ?K evs now q)).
                   r = Pending p \<or> (\<exists>x. r = Resolved x)"
    if "length (failures evs) < n" for evs
  proof -
    have "int (0 + length (failures evs)) < retries (req_options req)"
      using that assms(3) by simp
    from run_window_results [OF assms(1,2,5) this, of now q]
    show ?thesis .
  qed
  have w1: "loading (snd (run_window s p ?K evs now q)) ?K = Some p
          \<and> settled (snd (run_window s p ?K evs now q)) = settled s
          \<and> next_promise (snd (run_window s p ?K evs now q)) = next_promise s
          \<and> delay_log (snd (run_window s p ?K evs now q)) =
               delay_log s @ map ?f [0..<length (failures evs)]
          \<and> attempt_log (snd (run_window s p ?K evs now q)) =
               attempt_log s @ replicate (length (failures evs)) (req_url req)
          \<and> (\<forall>r \<in> set (fst (run_window s p ?K evs now q)).
                r = Pending p \<or> (\<exists>x. r = Resolved x))"
    if "length (failures evs) < n" for evs
    using inflight [OF that] results [OF that] assms(5) by simp
  have w2: "fst (run_window s p ?K (evs @ [Caller opts t]) now q) =
              fst (run_window s p ?K evs now q) @
              [if opt_cache opts
                  \<and> fresh_cached (cache (snd (run_window s p ?K evs now q)) ?K)
                       t (cacheDuration opts)
               then Resolved (data (the (cache (snd (run_window s p ?K evs now q)) ?K)))
               else if opt_cache opts
                  \<and> fresh_local (fst (getFromLocalStorage
                         (snd (run_window s p ?K evs now q)) ?K)) t (cacheDuration opts)
               then Resolved (fst (the (fst (getFromLocalStorage
                         (snd (run_window s p ?K evs now q)) ?K))))
               else Pending p]"
    if "length (failures evs) < n" for evs opts t
  proof -
    have l: "loading (snd (run_window s p ?K evs now q)) ?K = Some p"
      using w1 [OF that] by simp
    show ?thesis
      unfolding run_window_append_caller fst_conv fetch_inflight_result [OF l] by (rule refl)
  qed
  have w3: "settled (deliver (snd (run_window s p ?K evs now q)) p (Inr resp) t q) p =
               Some (fetch_chain ?K (req_options req) (Some resp))
          \<and> loading (deliver (snd (run_window s p ?K evs now q)) p (Inr resp) t q) ?K = None"
    if "length (failures evs) < n" for evs resp t
  proof -
    let ?s1 = "snd (run_window s p ?K evs now q)"
    let ?req = "req\<lparr>req_attempt := Some (length (failures evs))\<rparr>"
    have p1: "pending ?s1 p = Some ?req" using inflight [OF that] by simp
    have "deliver ?s1 p (Inr resp) t q =
            settle ?s1 p ?req (fetch_chain ?K (req_options req) (Some resp)) t q"
      using p1 by (simp add: deliver_def)
    then show ?thesis
      using settle_fields(1,2) [of ?s1 p ?req _ t q] by simp
  qed
  have w4: "settled (deliver (snd (run_window s p ?K evs now q)) p (Inl e) t q) p = Some (Inl e)
          \<and> loading (deliver (snd (run_window s p ?K evs now q)) p (Inl e) t q) ?K = None"
    if "length (failures evs) = n - 1" for evs e t
  proof -
    have lt: "length (failures evs) < n" using that assms(4) by simp
    let ?s1 = "snd (run_window s p ?K evs now q)"
    let ?req = "req\<lparr>req_attempt := Some (length (failures evs))\<rparr>"
    have p1: "pending ?s1 p = Some ?req" using inflight [OF lt] by simp
    have final: "int (length (failures evs)) = retries (req_options ?req) - 1"
      using that assms(3,4) by simp
    have "deliver ?s1 p (Inl e) t q = settle ?s1 p ?req (Inl e) t q"
      using p1 final by (simp add: deliver_def)
    then show ?thesis
      using settle_fields(1,2) [of ?s1 p ?req "Inl e" t q] by simp
  qed
  have w5: "fetch_chain ?K (req_options req) (Some resp) = Inr d"
    if "response_ok resp \<and> body resp = Some d
        \<and> validator (req_options req) = None \<and> transform (req_options req) = None" for resp d
    using that by (simp add: fetch_chain_def)
  show ?thesis
  proof (intro conjI allI impI)
    fix es :: "error list" assume "length es < n"
    note a = part1 [OF this]
    show "loading (deliver_all s p (map Inl es) now q) (req_key req) = Some p" using a by simp
    show "settled (deliver_all s p (map Inl es) now q) p = settled s p" using a by simp
    show "cache (deliver_all s p (map Inl es) now q) = cache s" using a by simp
    show "localStorage (deliver_all s p (map Inl es) now q) = localStorage s" using a by simp
    show "delay_log (deliver_all s p (map Inl es) now q) = delay_log s @ map ?f [0..<length es]"
      using a by simp
    show "attempt_log (deliver_all s p (map Inl es) now q) =
            attempt_log s @ replicate (length es) (req_url req)" using a by simp
  next
    fix es :: "error list" and resp assume "length es < n"
    note a = part2 [OF this, of resp]
    show "settled (deliver_all s p (map Inl es @ [Inr resp]) now q) p =
            Some (fetch_chain (req_key req) (req_options req) (Some resp))" using a by simp
    show "delay_log (deliver_all s p (map Inl es @ [Inr resp]) now q) =
            delay_log s @ map ?f [0..<length es]" using a by simp
    show "attempt_log (deliver_all s p (map Inl es @ [Inr resp]) now q) =
            attempt_log s @ replicate (length es) (req_url req)" using a by simp
    show "loading (deliver_all s p (map Inl es @ [Inr resp]) now q) (req_key req) = None"
      using a by simp
    show "pending (deliver_all s p (map Inl es @ [Inr resp]) now q) p = None" using a by simp
  next
    fix resp assume "\<not> response_ok resp"
    then show "fetch_chain (req_key req) (req_options req) (Some resp) =
                 Inl (HttpStatusError (status resp) (statusText resp))" by (rule part3)
  next
    fix es :: "error list" assume "length es = n"
    note a = part4 [OF this]
    show "settled (deliver_all s p (map Inl es) now q) p = Some (Inl (last es))" using a by simp
    show "delay_log (deliver_all s p (map Inl es) now q) = delay_log s @ map ?f [0..<n - 1]"
      using a by simp
    show "attempt_log (deliver_all s p (map Inl es) now q) =
            attempt_log s @ replicate (n - 1) (req_url req)" using a by simp
    show "loading (deliver_all s p (map Inl es) now q) (req_key req) = None" using a by simp
    show "pending (deliver_all s p (map Inl es) now q) p = None" using a by simp
    show "cache (deliver_all s p (map Inl es) now q) = cache s" using a by simp
    show "localStorage (deliver_all s p (map Inl es) now q) = localStorage s" using a by simp
  next
    fix evs assume "length (failures evs) < n"
    note a = w1 [OF this]
    show "loading (snd (run_window s p ?K evs now q)) ?K = Some p" using a by simp
    show "settled (snd (run_window s p ?K evs now q)) = settled s" using a by simp
    show "next_promise (snd (run_window s p ?K evs now q)) = next_promise s" using a by simp
    show "delay_log (snd (run_window s p ?K evs now q)) =
            delay_log s @ map ?f [0..<length (failures evs)]" using a by simp
    show "attempt_log (snd (run_window s p ?K evs now q)) =
            attempt_log s @ replicate (length (failures evs)) (req_url req)" using a by simp
    show "\<forall>r \<in> set (fst (run_window s p ?K evs now q)). r = Pending p \<or> (\<exists>x. r = Resolved x)"
      using a by simp
  next
    fix evs opts t assume "length (failures evs) < n"
    then show "fst (run_window s p ?K (evs @ [Caller opts t]) now q) =
              fst (run_window s p ?K evs now q) @
              [if opt_cache opts
                  \<and> fresh_cached (cache (snd (run_window s p ?K evs now q)) ?K)
                       t (cacheDuration opts)
               then Resolved (data (the (cache (snd (run_window s p ?K evs now q)) ?K)))
               else if opt_cache opts
                  \<and> fresh_local (fst (getFromLocalStorage
                         (snd (run_window s p ?K evs now q)) ?K)) t (cacheDuration opts)
               then Resolved (fst (the (fst (getFromLocalStorage
                         (snd (run_window s p ?K evs now q)) ?K))))
               else Pending p]" by (rule w2)
  next
    fix evs resp t assume "length (failures evs) < n"
    note a = w3 [OF this, of resp t]
    show "settled (deliver (snd (run_window s p ?K evs now q)) p (Inr resp) t q) p =
            Some (fetch_chain ?K (req_options req) (Some resp))" using a by simp
    show "loading (deliver (snd (run_window s p ?K evs now q)) p (Inr resp) t q) ?K = None"
      using a by simp
  next
    fix evs e t assume "length (failures evs) = n - 1"
    note a = w4 [OF this, of e t]
    show "settled (deliver (snd (run_window s p ?K evs now q)) p (Inl e) t q) p = Some (Inl e)"
      using a by simp
    show "loading (deliver (snd (run_window s p ?K evs now q)) p (Inl e) t q) ?K = None"
      using a by simp
  next
    fix resp d
    assume "response_ok resp \<and> body resp = Some d
            \<and> validator (req_options req) = None \<and> transform (req_options req) = None"
    then show "fetch_chain ?K (req_options req) (Some resp) = Inr d" by (rule w5)
  qed
qed

text \<open>
  Claim C2 as stated fails for a caller whose options make a cached entry fresh. The payload
  1 cached at time 0 is 5000 ms old when a call with a TTL of 1000 ms finds it stale and
  starts request 1 with three attempts. After the first transport failure a caller with the
  default TTL of one hour asks for the same key: it is answered with the old payload 1. The
  second attempt fails as well, the third one succeeds, and promise 1 is settled with the
  payload 7, which that caller of the failure window never receives.
\<close>

theorem cached_payload_served_in_failure_window:
  "fst (fetch (deliver (snd (fetch (new_DataService Map.empty) ''/x'' default_options 0)) 0
                 (Inr \<lparr>status = 200, statusText = ''OK'', body = Some (JNum 1)\<rparr>) 0 True)
          ''/x'' (default_options\<lparr>cacheDuration := 1000\<rparr>) 5000) = Pending 1
   \<and> fst (run_window
       (snd (fetch (deliver (snd (fetch (new_DataService Map.empty) ''/x'' default_options 0)) 0
                 (Inr \<lparr>status = 200, statusText = ''OK'', body = Some (JNum 1)\<rparr>) 0 True)
          ''/x'' (default_options\<lparr>cacheDuration := 1000\<rparr>) 5000))
       1 ''/x''
       [Attempt_fails (TransportError ''offline''), Caller default_options 5500,
        Attempt_fails (TransportError ''offline'')] 0 True) = [Resolved (Some (JNum 1))]
   \<and> settled (deliver (snd (run_window
       (snd (fetch (deliver (snd (fetch (new_DataService Map.empty) ''/x'' default_options 0)) 0
                 (Inr \<lparr>status = 200, statusText = ''OK'', body = Some (JNum 1)\<rparr>) 0 True)
          ''/x'' (default_options\<lparr>cacheDuration := 1000\<rparr>) 5000))
       1 ''/x''
       [Attempt_fails (TransportError ''offline''), Caller default_options 5500,
        Attempt_fails (TransportError ''offline'')] 0 True))
       1 (Inr \<lparr>status = 200, statusText = ''OK'', body = Some (JNum 7)\<rparr>) 8500 True) 1
     = Some (Inr (JNum 7))"
  by (simp add: run_simps)

text \<open>
  The scenario of the specification, with \<open>retries = 3\<close> and nothing cached: three callers
  ask for the same key, one before the first attempt fails and one after each of the two
  transport failures; all three hold promise 0, and the third attempt's response settles it
  with the payload.
\<close>

theorem retry_policy_witness:
  "fst (fetch (new_DataService Map.empty) ''/x'' default_options 0) = Pending 0
   \<and> fst (fetch (deliver (snd (fetch (new_DataService Map.empty) ''/x'' default_options 0)) 0
                  (Inl (TransportError ''offline'')) 1 True) ''/x'' default_options 1) = Pending 0
   \<and> fst (fetch (deliver_all (snd (fetch (new_DataService Map.empty) ''/x'' default_options 0)) 0
                  [Inl (TransportError ''offline''), Inl (TransportError ''offline'')] 2 True)
             ''/x'' default_options 2) = Pending 0
   \<and> settled (deliver_all (snd (fetch (new_DataService Map.empty) ''/x'' default_options 0)) 0
                (map Inl [TransportError ''offline'', TransportError ''offline'']
                 @ [Inr \<lparr>status = 200, statusText = ''OK'', body = Some (JNum 7)\<rparr>]) 9 True) 0
       = Some (Inr (JNum 7))
   \<and> delay_log (deliver_all (snd (fetch (new_DataService Map.empty) ''/x'' default_options 0)) 0
                (map Inl [TransportError ''offline'', TransportError ''offline'']
                 @ [Inr \<lparr>status = 200, statusText = ''OK'', body = Some (JNum 7)\<rparr>]) 9 True)
       = [1000, 2000]
   \<and> settled (deliver_all (snd (fetch (new_DataService Map.empty) ''/x'' default_options 0)) 0
                (map Inl [TransportError ''a'', TransportError ''b'', TransportError ''c'']) 9 True) 0
       = Some (Inl (TransportError ''c''))
   \<and> fst (run_window (snd (fetch (new_DataService Map.empty) ''/x'' default_options 0)) 0 ''/x''
            [Caller default_options 1, Attempt_fails (TransportError ''offline''),
             Caller default_options 1200, Attempt_fails (TransportError ''offline''),
             Caller default_options 3500] 9 True) = [Pending 0, Pending 0, Pending 0]
   \<and> settled (deliver (snd (run_window
            (snd (fetch (new_DataService Map.empty) ''/x'' default_options 0)) 0 ''/x''
            [Caller default_options 1, Attempt_fails (TransportError ''offline''),
             Caller default_options 1200, Attempt_fails (TransportError ''offline''),
             Caller default_options 3500] 9 True))
          0 (Inr \<lparr>status = 200, statusText = ''OK'', body = Some (JNum 7)\<rparr>) 3600 True) 0
       = Some (Inr (JNum 7))"
proof -
  let ?s = "snd (fetch (new_DataService Map.empty) ''/x'' default_options 0)"
  let ?req = "\<lparr>req_key = ''/x'', req_url = addVersion (new_DataService Map.empty) ''/x'',
               req_options = default_options, req_attempt = Some 0\<rparr>"
  let ?evs = "[Caller default_options 1, Attempt_fails (TransportError ''offline''),
             Caller default_options 1200, Attempt_fails (TransportError ''offline''),
             Caller default_options 3500]"
  let ?resp = "\<lparr>status = 200, statusText = ''OK'', body = Some (JNum 7)\<rparr>"
  have a1: "pending ?s 0 = Some ?req" by (simp add: run_simps)
  have a2: "req_attempt ?req = Some 0" by simp
  have a3: "retries (req_options ?req) = int 3" by (simp add: default_options_def)
  have a4: "0 < (3::nat)" by simp
  have a5: "loading ?s (req_key ?req) = Some 0" by (simp add: run_simps)
  note t = retry_policy [OF a1 a2 a3 a4 a5, of 9 True]
  have ok: "fetch_chain ''/x'' default_options (Some ?resp) = Inr (JNum 7)"
    by (simp add: fetch_chain_def response_ok_def default_options_def)
  have l2: "length [TransportError ''offline'', TransportError ''offline''] < (3::nat)" by simp
  have l3: "length [TransportError ''a'', TransportError ''b'', TransportError ''c''] = (3::nat)" by simp
  have lw: "length (failures ?evs) < (3::nat)" by simp
  note t2 = t [THEN conjunct2, THEN conjunct1, THEN spec, THEN spec, THEN mp, OF l2]
  note t4 = t [THEN conjunct2, THEN conjunct2, THEN conjunct2, THEN conjunct1,
               THEN spec, THEN mp, OF l3]
  note t7 = t [THEN conjunct2, THEN conjunct2, THEN conjunct2, THEN conjunct2,
               THEN conjunct2, THEN conjunct2, THEN conjunct1,
               THEN spec, THEN spec, THEN spec, THEN mp, OF lw]
  have s1: "settled (deliver_all ?s 0
                (map Inl [TransportError ''offline'', TransportError ''offline'']
                 @ [Inr ?resp]) 9 True) 0
       = Some (Inr (JNum 7))"
    using t2 [of ?resp, THEN conjunct1] ok by simp
  have s2: "delay_log (deliver_all ?s 0
                (map Inl [TransportError ''offline'', TransportError ''offline'']
                 @ [Inr ?resp]) 9 True)
       = delay_log ?s @ map (\<lambda>j. 2 ^ j * 1000) [0..<length [TransportError ''offline'', TransportError ''offline'']]"
    by (rule t2 [of ?resp, THEN conjunct2, THEN conjunct1])
  have s3: "settled (deliver_all ?s 0
                (map Inl [TransportError ''a'', TransportError ''b'', TransportError ''c'']) 9 True) 0
       = Some (Inl (last [TransportError ''a'', TransportError ''b'', TransportError ''c'']))"
    by (rule t4 [THEN conjunct1])
  have s4: "settled (deliver (snd (run_window ?s 0 (req_key ?req) ?evs 9 True)) 0 (Inr ?resp) 3600 True) 0
       = Some (fetch_chain (req_key ?req) (req_options ?req) (Some ?resp))"
    by (rule t7 [of ?resp 3600, THEN conjunct1])
  have d0: "delay_log ?s = []" by (simp add: run_simps)
  have c1: "fst (fetch (new_DataService Map.empty) ''/x'' default_options 0) = Pending 0"
    by (simp add: run_simps)
  have c2: "fst (fetch (deliver ?s 0 (Inl (TransportError ''offline'')) 1 True) ''/x'' default_options 1)
              = Pending 0"
    by (simp add: run_simps)
  have c3: "fst (fetch (deliver_all ?s 0
                  [Inl (TransportError ''offline''), Inl (TransportError ''offline'')] 2 True)
             ''/x'' default_options 2) = Pending 0"
    by (simp add: run_simps)
  have c4: "fst (run_window ?s 0 ''/x'' ?evs 9 True) = [Pending 0, Pending 0, Pending 0]"
    by (simp add: run_simps)
  have s4': "settled (deliver (snd (run_window ?s 0 ''/x'' ?evs 9 True)) 0 (Inr ?resp) 3600 True) 0
       = Some (Inr (JNum 7))"
    using s4 ok by simp
  have up: "[0..<2] = [0, Suc 0]" by (simp add: upt_rec)
  show ?thesis using s1 s2 s3 d0 c1 c2 c3 c4 s4' by (simp add: up)
qed

text \<open>
  Claim C3. An entry written to the persistent tier carries the cache version current at the
  time of writing (and nothing is written when the storage refuses). A persisted entry
  whose version differs from the current one is removed on the next read and never served,
  whatever its timestamp: \<^verbatim>\<open>getFromLocalStorage\<close> returns null, a call of fetch can only
  resolve from the memory tier, and with nothing in the memory tier it returns a pending
  promise of a network request.
\<close>

theorem persisted_entries_versioned:
  "localStorage (saveToLocalStorage s True key e) (ls_key key) =
      Some (Item (Some (JStr (cacheVersion s))) (data e) (Some (timestamp e)))
   \<and> (\<forall>k. k \<noteq> ls_key key \<longrightarrow> localStorage (saveToLocalStorage s q key e) k = localStorage s k)
   \<and> saveToLocalStorage s False key e = s
   \<and> (localStorage s (ls_key key) = Some (Item v d t) \<and> v \<noteq> Some (JStr (cacheVersion s)) \<longrightarrow>
        getFromLocalStorage s key =
          (None, s\<lparr>localStorage := (localStorage s)(ls_key key := None)\<rparr>)
      \<and> (\<forall>opts now x. fst (fetch s key opts now) = Resolved x \<longrightarrow>
            opt_cache opts \<and> fresh_cached (cache s key) now (cacheDuration opts)
            \<and> x = data (the (cache s key)))
      \<and> (\<forall>opts now. cache s key = None \<longrightarrow> (\<exists>p. fst (fetch s key opts now) = Pending p))
      \<and> (\<forall>opts now. opt_cache opts \<and> cache s key = None \<longrightarrow>
            localStorage (snd (fetch s key opts now)) (ls_key key) = None))"
proof -
  have w1: "localStorage (saveToLocalStorage s True key e) (ls_key key) =
      Some (Item (Some (JStr (cacheVersion s))) (data e) (Some (timestamp e)))"
    by (simp add: saveToLocalStorage_def)
  have w2: "\<forall>k. k \<noteq> ls_key key \<longrightarrow> localStorage (saveToLocalStorage s q key e) k = localStorage s k"
    by (simp add: saveToLocalStorage_def)
  have w3: "saveToLocalStorage s False key e = s"
    by (simp add: saveToLocalStorage_def)
  have rd: "getFromLocalStorage s key =
          (None, s\<lparr>localStorage := (localStorage s)(ls_key key := None)\<rparr>)
      \<and> (\<forall>opts now x. fst (fetch s key opts now) = Resolved x \<longrightarrow>
            opt_cache opts \<and> fresh_cached (cache s key) now (cacheDuration opts)
            \<and> x = data (the (cache s key)))
      \<and> (\<forall>opts now. cache s key = None \<longrightarrow> (\<exists>p. fst (fetch s key opts now) = Pending p))
      \<and> (\<forall>opts now. opt_cache opts \<and> cache s key = None \<longrightarrow>
            localStorage (snd (fetch s key opts now)) (ls_key key) = None)"
    if h: "localStorage s (ls_key key) = Some (Item v d t) \<and> v \<noteq> Some (JStr (cacheVersion s))"
  proof -
    have g: "getFromLocalStorage s key =
          (None, s\<lparr>localStorage := (localStorage s)(ls_key key := None)\<rparr>)"
      using h by (simp add: getFromLocalStorage_mismatch)
    have nl: "\<not> fresh_local (fst (getFromLocalStorage s key)) now dur" for now dur
      using g by (simp add: fresh_local_def)
    have r1: "opt_cache opts \<and> fresh_cached (cache s key) now (cacheDuration opts)
            \<and> x = data (the (cache s key))"
      if r: "fst (fetch s key opts now) = Resolved x" for opts now x
    proof -
      have hit: "opt_cache opts \<and> fresh_cached (cache s key) now (cacheDuration opts)"
        using r nl by (simp add: fetch_result split: if_splits)
      then show ?thesis using r by (simp add: fetch_result)
    qed
    have r2: "\<exists>p. fst (fetch s key opts now) = Pending p" if "cache s key = None" for opts now
      using that nl by (simp add: fetch_result fresh_cached_def)
    have r3: "localStorage (snd (fetch s key opts now)) (ls_key key) = None"
      if "opt_cache opts \<and> cache s key = None" for opts now
      using that g by (simp add: fetch_localStorage fresh_cached_def)
    show ?thesis using g r1 r2 r3 by blast
  qed
  show ?thesis using w1 w2 w3 rd by blast
qed

text \<open>
  A payload is persisted under version 1.2 at time 0. The page is then loaded again with the
  version bumped to 1.3: one millisecond later, well within the TTL, fetch does not return
  the persisted payload but starts a network request, and the old entry is gone.
\<close>

theorem persisted_entries_versioned_witness:
  "localStorage (deliver (snd (fetch (new_DataService Map.empty) ''/x'' default_options 0)) 0
       (Inr \<lparr>status = 200, statusText = ''OK'', body = Some (JNum 1)\<rparr>) 0 True) (ls_key ''/x'')
     = Some (Item (Some (JStr ''1.2'')) (Some (JNum 1)) (Some 0))
   \<and> fst (fetch ((new_DataService
                    [ls_key ''/x'' \<mapsto> Item (Some (JStr ''1.2'')) (Some (JNum 1)) (Some 0)])
                  \<lparr>cacheVersion := ''1.3''\<rparr>) ''/x'' default_options 1) = Pending 0
   \<and> localStorage (snd (fetch ((new_DataService
                    [ls_key ''/x'' \<mapsto> Item (Some (JStr ''1.2'')) (Some (JNum 1)) (Some 0)])
                  \<lparr>cacheVersion := ''1.3''\<rparr>) ''/x'' default_options 1)) (ls_key ''/x'') = None
   \<and> fst (fetch (new_DataService
                    [ls_key ''/x'' \<mapsto> Item (Some (JStr ''1.2'')) (Some (JNum 1)) (Some 0)])
               ''/x'' default_options 1) = Resolved (Some (JNum 1))"
proof -
  let ?s = "(new_DataService [ls_key ''/x'' \<mapsto> Item (Some (JStr ''1.2'')) (Some (JNum 1)) (Some 0)])
              \<lparr>cacheVersion := ''1.3''\<rparr>"
  have h: "localStorage ?s (ls_key ''/x'') = Some (Item (Some (JStr ''1.2'')) (Some (JNum 1)) (Some 0))
           \<and> Some (JStr ''1.2'') \<noteq> Some (JStr (cacheVersion ?s))"
    by (simp add: new_DataService_def)
  have c: "cache ?s ''/x'' = None" by (simp add: new_DataService_def)
  have o: "opt_cache default_options" by (simp add: default_options_def)
  have l: "loading ?s ''/x'' = None" "next_promise ?s = 0" by (simp_all add: new_DataService_def)
  from persisted_entries_versioned [of ?s "''/x''" _ _ "Some (JStr ''1.2'')" "Some (JNum 1)" "Some 0"] h c o
  have n: "(\<exists>p. fst (fetch ?s ''/x'' default_options 1) = Pending p)
           \<and> localStorage (snd (fetch ?s ''/x'' default_options 1)) (ls_key ''/x'') = None"
    by blast
  then have p: "fst (fetch ?s ''/x'' default_options 1) = Pending 0"
    using l by (auto simp: fetch_result split: if_splits)
  have w: "localStorage (deliver (snd (fetch (new_DataService Map.empty) ''/x'' default_options 0)) 0
       (Inr \<lparr>status = 200, statusText = ''OK'', body = Some (JNum 1)\<rparr>) 0 True) (ls_key ''/x'')
     = Some (Item (Some (JStr ''1.2'')) (Some (JNum 1)) (Some 0))"
    by (simp add: run_simps)
  have r: "fst (fetch (new_DataService
                    [ls_key ''/x'' \<mapsto> Item (Some (JStr ''1.2'')) (Some (JNum 1)) (Some 0)])
               ''/x'' default_options 1) = Resolved (Some (JNum 1))"
    by (simp add: run_simps)
  show ?thesis using n p w r by simp
qed

section \<open>Properties of the refresh, the gate and the router\<close>

lemma fetch_cold:
  assumes "opt_cache opts" and "cache s key = None" and "localStorage s (ls_key key) = None"
  shows "fetch s key opts now =
           (case loading s key of Some p \<Rightarrow> (Pending p, s) | None \<Rightarrow> start_request s key opts)"
proof -
  have g: "getFromLocalStorage s key = (None, s)"
    using assms(3) by (simp add: getFromLocalStorage_def)
  have nc: "\<not> fresh_cached (cache s key) now (cacheDuration opts)"
    using assms(2) by (simp add: fresh_cached_def)
  have nl: "\<not> fresh_local (fst (getFromLocalStorage s key)) now (cacheDuration opts)"
    using g by (simp add: fresh_local_def)
  show ?thesis by (simp add: fetch_miss [OF assms(1) nc nl] g split: option.splits)
qed

lemma urls_distinct:
  "episodes_url \<noteq> stats_url" "episodes_url \<noteq> config_url" "stats_url \<noteq> config_url"
  "stats_url \<noteq> episodes_url" "config_url \<noteq> episodes_url" "config_url \<noteq> stats_url"
  "episodes_url \<noteq> []" "stats_url \<noteq> []" "config_url \<noteq> []"
  by (simp_all add: episodes_url_def stats_url_def config_url_def)

lemma ls_key_inj: "ls_key a = ls_key b \<longleftrightarrow> a = b"
  by (simp add: ls_key_def)

lemma invalidate_fields:
  assumes "u \<noteq> []"
  shows "cache (invalidate s (Some u)) = (cache s)(u := None)"
    and "localStorage (invalidate s (Some u)) = (localStorage s)(ls_key u := None)"
    and "loading (invalidate s (Some u)) = loading s"
    and "pending (invalidate s (Some u)) = pending s"
    and "next_promise (invalidate s (Some u)) = next_promise s"
    and "attempt_log (invalidate s (Some u)) = attempt_log s"
    and "cacheVersion (invalidate s (Some u)) = cacheVersion s"
  using assms by (simp_all add: invalidate_def)

text \<open>
  Claim C7, as amended. The manual refresh deletes the entries of the episodes document,
  the stats document and also the config document from both cache tiers and resets the three
  memoized values. It then calls fetch for the episodes and the stats document only: each of
  the two calls returns a pending promise (the one already in flight for that key, or that of
  a new request, whose \<^verbatim>\<open>window.fetch\<close> is the only kind of network call the refresh logs);
  no request for the config document is made. Entries of other keys are untouched.
\<close>

theorem refresh_invalidates_and_refetches:
  "fst (fst (refreshLiveData rt clock a now)) =
      Pending (case loading (ds a) episodes_url of Some p \<Rightarrow> p | None \<Rightarrow> next_promise (ds a))
   \<and> snd (fst (refreshLiveData rt clock a now)) =
      Pending (case loading (ds a) stats_url of
                 Some p \<Rightarrow> p
               | None \<Rightarrow> (if loading (ds a) episodes_url = None then Suc (next_promise (ds a))
                          else next_promise (ds a)))
   \<and> attempt_log (ds (snd (refreshLiveData rt clock a now))) =
        attempt_log (ds a)
        @ (if loading (ds a) episodes_url = None then [addVersion (ds a) episodes_url] else [])
        @ (if loading (ds a) stats_url = None then [addVersion (ds a) stats_url] else [])
   \<and> cache (ds (snd (refreshLiveData rt clock a now))) =
        (cache (ds a))(episodes_url := None, stats_url := None, config_url := None)
   \<and> localStorage (ds (snd (refreshLiveData rt clock a now))) =
        (localStorage (ds a))(ls_key episodes_url := None, ls_key stats_url := None,
                              ls_key config_url := None)
   \<and> episodes_memo (snd (refreshLiveData rt clock a now)) = None
   \<and> stats_memo (snd (refreshLiveData rt clock a now)) = None
   \<and> config_memo (snd (refreshLiveData rt clock a now)) = None"
proof -
  let ?d0 = "ds a"
  let ?d1 = "invalidate ?d0 (Some episodes_url)"
  let ?d2 = "invalidate (invalidate ?d1 (Some stats_url)) (Some config_url)"
  let ?a2 = "StatsService_reload (EpisodeService_reload a)"
  have ds2: "ds ?a2 = ?d2" and m2: "episodes_memo ?a2 = None" "stats_memo ?a2 = None" "config_memo ?a2 = None"
    by (simp_all add: StatsService_reload_def EpisodeService_reload_def)
  have c2: "cache ?d2 = (cache ?d0)(episodes_url := None, stats_url := None, config_url := None)"
    and l2: "localStorage ?d2 = (localStorage ?d0)(ls_key episodes_url := None, ls_key stats_url := None,
                              ls_key config_url := None)"
    and f2: "loading ?d2 = loading ?d0" "next_promise ?d2 = next_promise ?d0"
            "attempt_log ?d2 = attempt_log ?d0" "cacheVersion ?d2 = cacheVersion ?d0"
    by (simp_all add: invalidate_fields urls_distinct)
  have oc: "opt_cache (episode_options rt clock)" "opt_cache stats_options"
           "0 < retries (episode_options rt clock)" "0 < retries stats_options"
    by (simp_all add: episode_options_def stats_options_def default_options_def)
  let ?fe = "fetch ?d2 episodes_url (episode_options rt clock) now"
  have fe: "?fe = (case loading ?d0 episodes_url of Some p \<Rightarrow> (Pending p, ?d2)
                   | None \<Rightarrow> start_request ?d2 episodes_url (episode_options rt clock))"
    using fetch_cold [OF oc(1), of ?d2 episodes_url now] c2 l2 f2
    by (simp add: urls_distinct ls_key_inj)
  let ?d3 = "snd ?fe"
  have d3: "cache ?d3 = cache ?d2" "localStorage ?d3 = localStorage ?d2"
      "loading ?d3 stats_url = loading ?d0 stats_url"
      "next_promise ?d3 = (if loading ?d0 episodes_url = None then Suc (next_promise ?d0)
                           else next_promise ?d0)"
      "attempt_log ?d3 = attempt_log ?d0
          @ (if loading ?d0 episodes_url = None then [addVersion ?d0 episodes_url] else [])"
      "cacheVersion ?d3 = cacheVersion ?d0"
      "fst ?fe = Pending (case loading ?d0 episodes_url of Some p \<Rightarrow> p | None \<Rightarrow> next_promise ?d0)"
    using oc f2
    by (simp_all add: fe start_request_fields urls_distinct addVersion_def split: option.splits)
  let ?a3 = "snd (getAllEpisodes rt clock ?a2 now)"
  have ga: "getAllEpisodes rt clock ?a2 now = (fst ?fe, ?a2\<lparr>ds := ?d3\<rparr>)"
    using m2 ds2 by (simp add: getAllEpisodes_def split_def Let_def)
  let ?fs = "fetch ?d3 stats_url stats_options now"
  have fs: "?fs = (case loading ?d0 stats_url of Some p \<Rightarrow> (Pending p, ?d3)
                   | None \<Rightarrow> start_request ?d3 stats_url stats_options)"
    using fetch_cold [OF oc(2), of ?d3 stats_url now] d3(1,2,3) c2 l2
    by (simp add: urls_distinct ls_key_inj)
  let ?d4 = "snd ?fs"
  have d4: "cache ?d4 = cache ?d2" "localStorage ?d4 = localStorage ?d2"
      "attempt_log ?d4 = attempt_log ?d3
          @ (if loading ?d0 stats_url = None then [addVersion ?d0 stats_url] else [])"
      "fst ?fs = Pending (case loading ?d0 stats_url of Some p \<Rightarrow> p | None \<Rightarrow> next_promise ?d3)"
    using oc d3(1,2,6)
    by (simp_all add: fs start_request_fields addVersion_def split: option.splits)
  have gs: "getStats (?a2\<lparr>ds := ?d3\<rparr>) now = (fst ?fs, ?a2\<lparr>ds := ?d4\<rparr>)"
    using m2 by (simp add: getStats_def split_def Let_def)
  have r: "refreshLiveData rt clock a now = ((fst ?fe, fst ?fs), ?a2\<lparr>ds := ?d4\<rparr>)"
    using ga gs by (simp add: refreshLiveData_def Let_def)
  show ?thesis
    unfolding r using d3 d4 c2 l2 m2 by (simp split: option.splits)
qed

text \<open>
  Claim C7 as stated fails: the config document, loaded and cached in both tiers at time 0,
  is no longer cached anywhere after a refresh one second later.
\<close>

theorem refresh_drops_config_entry:
  "cache (deliver (ds (snd (getConfig
            \<lparr>ds = new_DataService Map.empty, episodes_memo = None, stats_memo = None,
             config_memo = None\<rparr> 0))) 0
          (Inr \<lparr>status = 200, statusText = ''OK'', body = Some (JObj [])\<rparr>) 0 True) config_url
     = Some \<lparr>data = Some (JObj []), timestamp = 0\<rparr>
   \<and> localStorage (deliver (ds (snd (getConfig
            \<lparr>ds = new_DataService Map.empty, episodes_memo = None, stats_memo = None,
             config_memo = None\<rparr> 0))) 0
          (Inr \<lparr>status = 200, statusText = ''OK'', body = Some (JObj [])\<rparr>) 0 True) (ls_key config_url)
     = Some (Item (Some (JStr ''1.2'')) (Some (JObj [])) (Some 0))
   \<and> cache (ds (snd (refreshLiveData utc_runtime (const_clock 1000)
        \<lparr>ds = deliver (ds (snd (getConfig
            \<lparr>ds = new_DataService Map.empty, episodes_memo = None, stats_memo = None,
             config_memo = None\<rparr> 0))) 0
          (Inr \<lparr>status = 200, statusText = ''OK'', body = Some (JObj [])\<rparr>) 0 True,
         episodes_memo = None, stats_memo = None, config_memo = Some (JObj [])\<rparr> 1000))) config_url
     = None
   \<and> localStorage (ds (snd (refreshLiveData utc_runtime (const_clock 1000)
        \<lparr>ds = deliver (ds (snd (getConfig
            \<lparr>ds = new_DataService Map.empty, episodes_memo = None, stats_memo = None,
             config_memo = None\<rparr> 0))) 0
          (Inr \<lparr>status = 200, statusText = ''OK'', body = Some (JObj [])\<rparr>) 0 True,
         episodes_memo = None, stats_memo = None, config_memo = Some (JObj [])\<rparr> 1000)))
       (ls_key config_url)
     = None"
proof -
  let ?d = "deliver (ds (snd (getConfig
            \<lparr>ds = new_DataService Map.empty, episodes_memo = None, stats_memo = None,
             config_memo = None\<rparr> 0))) 0
          (Inr \<lparr>status = 200, statusText = ''OK'', body = Some (JObj [])\<rparr>) 0 True"
  let ?a = "\<lparr>ds = ?d, episodes_memo = None, stats_memo = None, config_memo = Some (JObj [])\<rparr>"
  have 1: "cache ?d config_url = Some \<lparr>data = Some (JObj []), timestamp = 0\<rparr>"
    by (simp add: getConfig_def config_options_def config_url_def run_simps)
  have 2: "localStorage ?d (ls_key config_url) = Some (Item (Some (JStr ''1.2'')) (Some (JObj [])) (Some 0))"
    by (simp add: getConfig_def config_options_def config_url_def run_simps)
  have 3: "cache (ds (snd (refreshLiveData utc_runtime (const_clock 1000) ?a 1000))) config_url = None"
    by (simp add: refreshLiveData_def Let_def split_def getAllEpisodes_def getStats_def
          StatsService_reload_def EpisodeService_reload_def fetch_cold invalidate_fields
          urls_distinct ls_key_inj episode_options_def stats_options_def default_options_def
          start_request_fields split: option.splits)
  have 4: "localStorage (ds (snd (refreshLiveData utc_runtime (const_clock 1000) ?a 1000))) (ls_key config_url) = None"
    by (simp add: refreshLiveData_def Let_def split_def getAllEpisodes_def getStats_def
          StatsService_reload_def EpisodeService_reload_def fetch_cold invalidate_fields
          urls_distinct ls_key_inj episode_options_def stats_options_def default_options_def
          start_request_fields split: option.splits)
  show ?thesis using 1 2 3 4 by simp
qed

theorem refresh_invalidates_and_refetches_witness:
  "fst (refreshLiveData utc_runtime (const_clock 1000)
          \<lparr>ds = new_DataService Map.empty, episodes_memo = Some (JArr []), stats_memo = None,
           config_memo = Some (JObj [])\<rparr> 1000) = (Pending 0, Pending 1)
   \<and> attempt_log (ds (snd (refreshLiveData utc_runtime (const_clock 1000)
          \<lparr>ds = new_DataService Map.empty, episodes_memo = Some (JArr []), stats_memo = None,
           config_memo = Some (JObj [])\<rparr> 1000))) =
       [''/data/dialogs.json?v=1.2'', ''/data/stats.json?v=1.2'']
   \<and> config_memo (snd (refreshLiveData utc_runtime (const_clock 1000)
          \<lparr>ds = new_DataService Map.empty, episodes_memo = Some (JArr []), stats_memo = None,
           config_memo = Some (JObj [])\<rparr> 1000)) = None"
proof -
  let ?a = "\<lparr>ds = new_DataService Map.empty, episodes_memo = Some (JArr []), stats_memo = None,
           config_memo = Some (JObj [])\<rparr>"
  have l: "loading (ds ?a) episodes_url = None" "loading (ds ?a) stats_url = None"
          "next_promise (ds ?a) = 0" "attempt_log (ds ?a) = []"
    by (simp_all add: new_DataService_def)
  have av: "addVersion (ds ?a) episodes_url = ''/data/dialogs.json?v=1.2''"
           "addVersion (ds ?a) stats_url = ''/data/stats.json?v=1.2''"
    by (simp_all add: addVersion_def new_DataService_def encodeURIComponent_def
          uri_unreserved_def episodes_url_def stats_url_def)
  from refresh_invalidates_and_refetches [of utc_runtime "const_clock 1000" ?a 1000] l av
  show ?thesis by (simp add: prod_eq_iff)
qed

lemma sessionKey_inj: "sessionKey h = sessionKey h' \<longleftrightarrow> gate_token h = gate_token h'"
  by (simp add: sessionKey_def)

lemma gate_token_nonempty: "gate_token h \<noteq> []"
  by (simp add: gate_token_def)

lemma unlock_lookup:
  "unlock ss h (sessionKey h) = Some (gate_token h)"
  "gate_token h' \<noteq> gate_token h \<Longrightarrow> unlock ss h (sessionKey h') = ss (sessionKey h')"
  by (simp_all add: unlock_def sessionKey_inj)

text \<open>
  Claim C8. Unlocking the gate for the expected hash \<open>h\<close> stores the token of \<open>h\<close> in the
  session storage under the key made of the prefix and that token
  (\<open>h\<close> is the configured hash trimmed and in lower case; an empty hash has the token
  \<open>open\<close>). Whenever the gate came up for a config with that hash and was unlocked, running
  the gate again on the same session storage, as a page reload does, proceeds without the gate
  for every value of the \<open>maintenance\<close> query parameter. For a config whose expected hash has
  another token, the unlock changes nothing: if the gate comes up for it on a session storage,
  it comes up just the same after \<open>h\<close> was unlocked there. Two expected hashes have the same
  token only when they are equal, or when one is empty and the other is the word \<open>open\<close>,
  which is not a SHA-256 digest.
\<close>

theorem gate_unlock_is_per_hash:
  "unlock ss h (sessionKey h) = Some (gate_token h)
   \<and> sessionKey h = MAINT_SESSION_PREFIX @ gate_token h
   \<and> (\<forall>k. k \<noteq> sessionKey h \<longrightarrow> unlock ss h k = ss k)
   \<and> (gate_token h' = gate_token h) =
       (h' = h \<or> (h' = [] \<and> h = ''open'') \<or> (h' = ''open'' \<and> h = []))
   \<and> (enforceMaintenanceGate config mp ss = Inr (Gate h ss1) \<longrightarrow>
        (\<forall>mp'. \<exists>ss2. enforceMaintenanceGate config mp' (unlock ss1 h) = Inr (Proceed ss2)))
   \<and> (enforceMaintenanceGate config' mp ss = Inr (Gate h' ss1) \<and> gate_token h' \<noteq> gate_token h \<longrightarrow>
        enforceMaintenanceGate config' mp (unlock ss h) = Inr (Gate h' (unlock ss1 h)))"
proof -
  let ?fo = "''uplink_maintenance_force_off''"
  have a: "unlock ss h (sessionKey h) = Some (gate_token h)" by (rule unlock_lookup(1))
  have b: "sessionKey h = MAINT_SESSION_PREFIX @ gate_token h" by (simp add: sessionKey_def)
  have c: "\<forall>k. k \<noteq> sessionKey h \<longrightarrow> unlock ss h k = ss k" by (simp add: unlock_def)
  have t: "(gate_token h' = gate_token h) =
       (h' = h \<or> (h' = [] \<and> h = ''open'') \<or> (h' = ''open'' \<and> h = []))"
    by (auto simp: gate_token_def)
  have d: "\<exists>ss2. enforceMaintenanceGate config mp' (unlock ss1 h) = Inr (Proceed ss2)"
    if g: "enforceMaintenanceGate config mp ss = Inr (Gate h ss1)" for mp'
  proof -
    let ?settings = "opt_chain config ''maintenance''"
    let ?raw = "opt_chain ?settings ''enabled''"
    have en: "?raw = Some (JBool True) \<or> ?raw = Some (JStr ''true'')
              \<or> ?raw = Some (JNum 1) \<or> ?raw = Some (JStr ''1'')"
      using g by (auto simp: enforceMaintenanceGate_def Let_def split: if_splits)
    have eh: "expected_hash (the ?settings) = Inr h"
      using g en
      by (auto simp: enforceMaintenanceGate_def Let_def split: if_splits sum.splits option.splits)
    let ?u = "unlock ss1 h"
    let ?u1 = "if mp' = Some ''off'' then ?u(?fo \<mapsto> ''1'') else ?u"
    show ?thesis
    proof (cases "?u1 ?fo = Some ''1''")
      case True
      then show ?thesis by (simp add: enforceMaintenanceGate_def Let_def)
    next
      case False
      then have noff: "mp' \<noteq> Some ''off''" by auto
      then have "?u1 (sessionKey h) = Some (gate_token h)" by (simp add: unlock_lookup)
      then show ?thesis
        using False en eh noff
        by (auto simp: enforceMaintenanceGate_def Let_def gate_token_nonempty)
    qed
  qed
  have e: "enforceMaintenanceGate config' mp (unlock ss h) = Inr (Gate h' (unlock ss1 h))"
    if g: "enforceMaintenanceGate config' mp ss = Inr (Gate h' ss1)"
      and ne: "gate_token h' \<noteq> gate_token h"
  proof -
    let ?settings = "opt_chain config' ''maintenance''"
    let ?raw = "opt_chain ?settings ''enabled''"
    let ?s1 = "if mp = Some ''off'' then ss(?fo \<mapsto> ''1'') else ss"
    have noff: "?s1 ?fo \<noteq> Some ''1''"
      using g by (auto simp: enforceMaintenanceGate_def Let_def split: if_splits)
    then have mp: "mp \<noteq> Some ''off''" by auto
    then have ss1: "ss1 = ss"
      using g
      by (auto simp: enforceMaintenanceGate_def Let_def split: if_splits sum.splits option.splits)
    have en: "?raw = Some (JBool True) \<or> ?raw = Some (JStr ''true'')
              \<or> ?raw = Some (JNum 1) \<or> ?raw = Some (JStr ''1'')"
      using g by (auto simp: enforceMaintenanceGate_def Let_def split: if_splits)
    have eh: "expected_hash (the ?settings) = Inr h'"
      using g en
      by (auto simp: enforceMaintenanceGate_def Let_def split: if_splits sum.splits option.splits)
    have locked: "\<not> (\<exists>stored. ss (sessionKey h') = Some stored \<and> stored \<noteq> []
                      \<and> stored = gate_token h')"
      using g en eh mp noff
      by (auto simp: enforceMaintenanceGate_def Let_def split: if_splits option.splits)
    have fo: "unlock ss h ?fo \<noteq> Some ''1''"
    proof (cases "?fo = sessionKey h")
      case True
      then have "gate_token h = ''force_off''"
        by (simp add: sessionKey_def MAINT_SESSION_PREFIX_def)
      then show ?thesis using True by (simp add: unlock_def)
    next
      case False
      then show ?thesis using noff mp by (simp add: unlock_def)
    qed
    have sk: "unlock ss h (sessionKey h') = ss (sessionKey h')"
      using ne by (simp add: unlock_lookup)
    show ?thesis
      using fo sk locked en eh mp ss1
      by (auto simp: enforceMaintenanceGate_def Let_def split: option.splits)
  qed
  show ?thesis using a b c t d e by blast
qed

theorem gate_unlock_is_per_hash_witness:
  "enforceMaintenanceGate
      (Some (JObj [(''maintenance'', JObj [(''enabled'', JBool True),
                                            (''passphrase_sha256'', JStr '' ABC123 '')])]))
      None Map.empty = Inr (Gate ''abc123'' Map.empty)
   \<and> enforceMaintenanceGate
      (Some (JObj [(''maintenance'', JObj [(''enabled'', JBool True),
                                            (''passphrase_sha256'', JStr '' ABC123 '')])]))
      None (unlock Map.empty ''abc123'') = Inr (Proceed (unlock Map.empty ''abc123''))
   \<and> enforceMaintenanceGate
      (Some (JObj [(''maintenance'', JObj [(''enabled'', JBool True),
                                            (''passphrase_sha256'', JStr ''def456'')])]))
      None (unlock Map.empty ''abc123'') = Inr (Gate ''def456'' (unlock Map.empty ''abc123''))
   \<and> unlock Map.empty ''abc123'' ''uplink_maintenance_abc123'' = Some ''abc123''"
proof -
  let ?c = "Some (JObj [(''maintenance'', JObj [(''enabled'', JBool True),
                                            (''passphrase_sha256'', JStr '' ABC123 '')])])"
  let ?c' = "Some (JObj [(''maintenance'', JObj [(''enabled'', JBool True),
                                            (''passphrase_sha256'', JStr ''def456'')])])"
  have h1: "toLowerCase (trim '' ABC123 '') = ''abc123''" by code_simp
  have h2: "toLowerCase (trim ''def456'') = ''def456''" by code_simp
  have g1: "enforceMaintenanceGate ?c None Map.empty = Inr (Gate ''abc123'' Map.empty)"
    by (simp add: enforceMaintenanceGate_def expected_hash_def or_default_def h1 sessionKey_def)
  have g2: "enforceMaintenanceGate ?c' None Map.empty = Inr (Gate ''def456'' Map.empty)"
    by (simp add: enforceMaintenanceGate_def expected_hash_def or_default_def h2 sessionKey_def)
  have ne: "gate_token ''def456'' \<noteq> gate_token ''abc123''" by (simp add: gate_token_def)
  note t = gate_unlock_is_per_hash [where ss = Map.empty and h = "''abc123''" and config = ?c
              and mp = None and ?ss1.0 = Map.empty and config' = ?c' and h' = "''def456''"]
  have p: "\<exists>ss2. enforceMaintenanceGate ?c None (unlock Map.empty ''abc123'') = Inr (Proceed ss2)"
    using t g1 by blast
  have p': "enforceMaintenanceGate ?c None (unlock Map.empty ''abc123'')
              = Inr (Proceed (unlock Map.empty ''abc123''))"
    using p by (auto simp: enforceMaintenanceGate_def Let_def split: if_splits sum.splits option.splits)
  have q: "enforceMaintenanceGate ?c' None (unlock Map.empty ''abc123'')
              = Inr (Gate ''def456'' (unlock Map.empty ''abc123''))"
    using t g2 ne by blast
  have k: "unlock Map.empty ''abc123'' ''uplink_maintenance_abc123'' = Some ''abc123''"
    using t by (simp add: sessionKey_def MAINT_SESSION_PREFIX_def gate_token_def)
  show ?thesis using g1 p' q k by simp
qed

text \<open>
  The passphrase form unlocks exactly when the digest of the trimmed, non-empty input is the
  expected hash; in every other case the session storage is left as it is.
\<close>

lemma submit_passphrase_result:
  "submit_passphrase sha h input ss =
     (if trim input \<noteq> [] \<and> sha (trim input) = Some h then (Unlocked, unlock ss h)
      else (if trim input = [] then PasswordMissing
            else if sha (trim input) = None then HttpsRequired else WrongPassword, ss))"
  by (auto simp: submit_passphrase_def Let_def split: option.splits)

text \<open>
  Claim C9. With the URL fragment \<open>#episoden\<close>, handleRoute resolves to the page id
  \<open>protokoll\<close>: that is the current page afterwards, reached by a navigation that does not
  assign to the fragment (or by no navigation at all when \<open>protokoll\<close> is already current and
  no episode is asked for). A fragment that names neither a valid page nor one of the two
  aliases \<open>episoden\<close> and \<open>archiv\<close> resolves to the start page \<open>live\<close>.
\<close>

theorem handleRoute_resolves_alias:
  "hashToPage ''episoden'' = ''protokoll''
   \<and> (location_hash n = ''#episoden'' \<longrightarrow>
        currentPage (handleRoute n) = ''protokoll''
      \<and> location_hash (handleRoute n) = ''#episoden''
      \<and> hash_writes (handleRoute n) = hash_writes n
      \<and> (currentPage n \<noteq> ''protokoll'' \<longrightarrow>
           active_page (handleRoute n) = ''protokoll''
         \<and> navigate_events (handleRoute n) = navigate_events n @ [''protokoll'']))
   \<and> (remove_first_hash (location_hash n) \<notin> VALID_PAGES \<union> {''episoden'', ''archiv''} \<longrightarrow>
        currentPage (handleRoute n) = ''live''
      \<and> location_hash (handleRoute n) = location_hash n
      \<and> hash_writes (handleRoute n) = hash_writes n)"
proof -
  have a: "hashToPage ''episoden'' = ''protokoll''" by (simp add: hashToPage_def)
  have v: "''protokoll'' \<in> VALID_PAGES" "''live'' \<in> VALID_PAGES" by (simp_all add: VALID_PAGES_def)
  have b: "currentPage (handleRoute n) = ''protokoll''
      \<and> location_hash (handleRoute n) = ''#episoden''
      \<and> hash_writes (handleRoute n) = hash_writes n
      \<and> (currentPage n \<noteq> ''protokoll'' \<longrightarrow>
           active_page (handleRoute n) = ''protokoll''
         \<and> navigate_events (handleRoute n) = navigate_events n @ [''protokoll''])"
    if "location_hash n = ''#episoden''"
    using that v
    by (auto simp: handleRoute_def Let_def hashToPage_def navigate_def scrollToEpisodeFromQuery_def
          setOrder_def split: option.splits)
  have c: "currentPage (handleRoute n) = ''live''
      \<and> location_hash (handleRoute n) = location_hash n
      \<and> hash_writes (handleRoute n) = hash_writes n"
    if u: "remove_first_hash (location_hash n) \<notin> VALID_PAGES \<union> {''episoden'', ''archiv''}"
  proof -
    let ?h = "remove_first_hash (location_hash n)"
    have h0: "hashToPage ?h = (if ?h = [] then ''live'' else ?h)"
      using u by (simp add: hashToPage_def)
    have r: "(if hashToPage ?h \<notin> VALID_PAGES \<and> hashToPage ?h \<noteq> ''archiv'' then ''live''
              else hashToPage ?h) = ''live''"
      using u v h0 by auto
    show ?thesis
      using v
      by (auto simp: handleRoute_def Let_def r navigate_def)
  qed
  show ?thesis using a b c by blast
qed

theorem handleRoute_resolves_alias_witness:
  "currentPage (handleRoute
      \<lparr>currentPage = ''live'', currentOrder = ''newest'', active_page = ''live'',
       location_hash = ''#episoden'', hash_writes = 0, ep_param = None, navigate_events = [],
       scrolled_to_top = 0, scroll_target = None\<rparr>) = ''protokoll''
   \<and> hash_writes (handleRoute
      \<lparr>currentPage = ''live'', currentOrder = ''newest'', active_page = ''live'',
       location_hash = ''#episoden'', hash_writes = 0, ep_param = None, navigate_events = [],
       scrolled_to_top = 0, scroll_target = None\<rparr>) = 0
   \<and> currentPage (handleRoute
      \<lparr>currentPage = ''info'', currentOrder = ''newest'', active_page = ''info'',
       location_hash = ''#nowhere'', hash_writes = 0, ep_param = None, navigate_events = [],
       scrolled_to_top = 0, scroll_target = None\<rparr>) = ''live''"
proof -
  let ?n = "\<lparr>currentPage = ''live'', currentOrder = ''newest'', active_page = ''live'',
       location_hash = ''#episoden'', hash_writes = 0, ep_param = None, navigate_events = [],
       scrolled_to_top = 0, scroll_target = None\<rparr>"
  let ?m = "\<lparr>currentPage = ''info'', currentOrder = ''newest'', active_page = ''info'',
       location_hash = ''#nowhere'', hash_writes = 0, ep_param = None, navigate_events = [],
       scrolled_to_top = 0, scroll_target = None\<rparr>"
  have u: "remove_first_hash (location_hash ?m) \<notin> VALID_PAGES \<union> {''episoden'', ''archiv''}"
    by (simp add: VALID_PAGES_def)
  from handleRoute_resolves_alias [of ?n] handleRoute_resolves_alias [of ?m] u
  show ?thesis by simp
qed

end
